theory Spec2Isabelle
  imports Main
begin

section \<open>Glue catalog types\<close>

text \<open>
  The values of \<^verbatim>\<open>Schema\<close> and \<^verbatim>\<open>Type\<close> of aws-glue-alpha that the converter builds:
  the scalar constants, \<^verbatim>\<open>Schema.array(itemType)\<close> and \<^verbatim>\<open>Schema.struct(columns)\<close>.
  A \<^verbatim>\<open>Column\<close> is the object \<^verbatim>\<open>{ name, type }\<close>. Two values are no Glue types
  and are what reading a key of a mapping can give at run time: \<open>UNDEFINED\<close> is
  JavaScript's \<^verbatim>\<open>undefined\<close>, the value of a key that the object does not have, and
  \<open>prototype_member k\<close> is the member \<open>k\<close> of \<^verbatim>\<open>Object.prototype\<close> (the function
  \<^verbatim>\<open>Object.prototype.toString\<close> for \<^verbatim>\<open>toString\<close>), the value of a key that the object
  inherits.
\<close>

datatype glue_type =
    BOOLEAN | BINARY | BIG_INT | DOUBLE | FLOAT | INTEGER | SMALL_INT | TINY_INT
  | DATE | TIMESTAMP | STRING | UNDEFINED
  | prototype_member string
  | array glue_type
  | struct "column list"
and column = Column (column_name: string) (column_type: glue_type)

section \<open>The protobufjs reflection objects the converter reads\<close>

text \<open>
  A \<^verbatim>\<open>protobuf.Type\<close> or \<^verbatim>\<open>protobuf.Enum\<close> object is referred to by its full name,
  which is unique within one root; the comparison \<^verbatim>\<open>===\<close> of two such objects of one
  root is the equality of their full names. \<^verbatim>\<open>field.resolvedType\<close> is \<^verbatim>\<open>null\<close>
  (\<open>None\<close>), a Type or an Enum.
\<close>

datatype resolved_type = Type string | Enum string

datatype reflection_object = NestedType string | NestedEnum string | Namespace string

record field =
  name :: string
  type :: string
  repeated :: bool
  parent :: string
  resolved :: bool
  resolvedType :: "resolved_type option"

text \<open>
  A root: its top-level declarations in declaration order (\<^verbatim>\<open>root.nestedArray\<close>), its
  Type objects, each with \<^verbatim>\<open>Object.values(type.fields)\<close> (the fields in declaration
  order), and the full names of its Enum objects.
\<close>

record root =
  nestedArray :: "reflection_object list"
  types :: "(string \<times> field list) list"
  enums :: "string list"

text \<open>The errors thrown, one constructor per message:
  \<^verbatim>\<open>Unsupported field type: ${fieldType}\<close>,
  \<^verbatim>\<open>Circular reference detected for message type: ${fullName}\<close>,
  \<^verbatim>\<open>Message type not found in proto file\<close>,
  protobufjs's \<^verbatim>\<open>no such type: ${path}\<close> (of \<^verbatim>\<open>lookupType\<close>, and of the lookup that
  \<^verbatim>\<open>resolve\<close> makes), and whatever \<^verbatim>\<open>loadSync\<close> throws.\<close>

datatype error =
    Unsupported_field_type string
  | Circular_reference string
  | Message_type_not_found
  | No_such_type string
  | Load_failed string

text \<open>\<^verbatim>\<open>Object.values(messageType.fields)\<close>; a name that is no Type of the root stands for
  no object and has no fields.\<close>

definition fields_of :: "root \<Rightarrow> string \<Rightarrow> field list" where
  "fields_of r t = (case map_of (types r) t of None \<Rightarrow> [] | Some fs \<Rightarrow> fs)"

text \<open>The scalar type names of protobufjs (\<^verbatim>\<open>types.basic\<close>): a field of one of these has
  no resolved type.\<close>

definition basic :: "string list" where
  "basic = [''double'', ''float'', ''int32'', ''uint32'', ''sint32'', ''fixed32'', ''sfixed32'',
            ''int64'', ''uint64'', ''sint64'', ''fixed64'', ''sfixed64'', ''bool'', ''string'',
            ''bytes'']"

definition lookupTypeOrEnum :: "root \<Rightarrow> string \<Rightarrow> resolved_type option" where
  "lookupTypeOrEnum r t =
     (if map_of (types r) t \<noteq> None then Some (Type t)
      else if t \<in> set (enums r) then Some (Enum t)
      else None)"

text \<open>Writing a field object: the field of that name of its parent type is replaced.\<close>

definition store_field :: "root \<Rightarrow> field \<Rightarrow> root" where
  "store_field r f =
     r\<lparr>types := map (\<lambda>(n, fs). if n = parent f
                                  then (n, map (\<lambda>x. if name x = name f then f else x) fs)
                                  else (n, fs)) (types r)\<rparr>"

text \<open>
  \<^verbatim>\<open>field.resolve()\<close>: returns at once on a resolved field; otherwise a field of a basic
  type is marked resolved, and the type name of any other field is looked up and stored in
  \<^verbatim>\<open>resolvedType\<close>, or the lookup throws. The root returned is the root after the call,
  the field returned is the field object after the call.
\<close>

definition resolve :: "root \<Rightarrow> field \<Rightarrow> root \<times> (error + field)" where
  "resolve r f =
     (if resolved f then (r, Inr f)
      else if type f \<in> set basic then
        (let f' = f\<lparr>resolved := True\<rparr> in (store_field r f', Inr f'))
      else (case lookupTypeOrEnum r (type f) of
              None \<Rightarrow> (r, Inl (No_such_type (type f)))
            | Some t \<Rightarrow>
                (let f' = f\<lparr>resolved := True, resolvedType := Some t\<rparr>
                 in (store_field r f', Inr f'))))"

text \<open>\<^verbatim>\<open>messageType.resolveAll()\<close>: every field of the type is resolved, in order.\<close>

fun resolve_fields :: "root \<Rightarrow> field list \<Rightarrow> root \<times> (error + unit)" where
  "resolve_fields r [] = (r, Inr ())"
| "resolve_fields r (f # fs) =
     (case resolve r f of
        (r1, Inl e) \<Rightarrow> (r1, Inl e)
      | (r1, Inr _) \<Rightarrow> resolve_fields r1 fs)"

definition resolveAll :: "root \<Rightarrow> string \<Rightarrow> root \<times> (error + unit)" where
  "resolveAll r t = resolve_fields r (fields_of r t)"

text \<open>\<^verbatim>\<open>root.resolveAll()\<close>: every type of the root is resolved.\<close>

fun resolve_types :: "root \<Rightarrow> string list \<Rightarrow> root \<times> (error + unit)" where
  "resolve_types r [] = (r, Inr ())"
| "resolve_types r (t # ts) =
     (case resolveAll r t of
        (r1, Inl e) \<Rightarrow> (r1, Inl e)
      | (r1, Inr _) \<Rightarrow> resolve_types r1 ts)"

definition root_resolveAll :: "root \<Rightarrow> root \<times> (error + unit)" where
  "root_resolveAll r = resolve_types r (map fst (types r))"

text \<open>\<^verbatim>\<open>nested instanceof protobuf.Type\<close>, and the full name of a reflection object.\<close>

definition instanceof_Type :: "reflection_object \<Rightarrow> bool" where
  "instanceof_Type nested = (case nested of NestedType _ \<Rightarrow> True | _ \<Rightarrow> False)"

definition fullName :: "reflection_object \<Rightarrow> string" where
  "fullName nested = (case nested of NestedType n \<Rightarrow> n | NestedEnum n \<Rightarrow> n | Namespace n \<Rightarrow> n)"

text \<open>Modelled from the spec: \<^verbatim>\<open>root.lookupType(path)\<close> of protobufjs, which the spec
  gives as the lookup of the exact fully-qualified name in the graph, failing when the
  name is absent (protobufjs throws \<^verbatim>\<open>no such type\<close> with the path).\<close>

definition lookupType :: "root \<Rightarrow> string \<Rightarrow> error + reflection_object" where
  "lookupType r path =
     (case map_of (types r) path of
        None \<Rightarrow> Inl (No_such_type path)
      | Some _ \<Rightarrow> Inr (NestedType path))"

section \<open>The converter\<close>

type_synonym type_mapping = "string \<rightharpoonup> glue_type"

type_synonym cache = "string \<rightharpoonup> column list"

definition DEFAULT_TYPE_MAPPING :: type_mapping where
  "DEFAULT_TYPE_MAPPING =
     [''double'' \<mapsto> DOUBLE, ''float'' \<mapsto> FLOAT, ''int64'' \<mapsto> BIG_INT, ''uint64'' \<mapsto> BIG_INT,
      ''int32'' \<mapsto> INTEGER, ''bool'' \<mapsto> BOOLEAN, ''string'' \<mapsto> STRING, ''bytes'' \<mapsto> STRING,
      ''enum'' \<mapsto> STRING]"

text \<open>
  A mapping is a plain object, \<^verbatim>\<open>{ ...DEFAULT_TYPE_MAPPING, ...config.typeMapping }\<close>: the
  map holds its own keys, and its prototype is \<^verbatim>\<open>Object.prototype\<close>, whose keys every
  mapping inherits. \<open>Object_prototype\<close> lists them
  (\<^verbatim>\<open>Object.getOwnPropertyNames(Object.prototype)\<close> in Node).
\<close>

definition Object_prototype :: "string list" where
  "Object_prototype =
     [''constructor'', ''__defineGetter__'', ''__defineSetter__'', ''hasOwnProperty'',
      ''__lookupGetter__'', ''__lookupSetter__'', ''isPrototypeOf'', ''propertyIsEnumerable'',
      ''toString'', ''valueOf'', ''__proto__'', ''toLocaleString'']"

text \<open>
  \<^verbatim>\<open>assertKey(obj, key)\<close> is \<^verbatim>\<open>typeof key === 'string' && key in obj\<close>; the key is a
  string here, and \<^verbatim>\<open>in\<close> holds of the object's own keys and of the keys it inherits.
  \<open>property obj key\<close> is the read \<^verbatim>\<open>obj[key]\<close>: the own value, else the inherited
  member, else \<^verbatim>\<open>undefined\<close>.
\<close>

definition assertKey :: "type_mapping \<Rightarrow> string \<Rightarrow> bool" where
  "assertKey obj key = (key \<in> dom obj \<or> key \<in> set Object_prototype)"

definition property :: "type_mapping \<Rightarrow> string \<Rightarrow> glue_type" where
  "property obj key =
     (case obj key of
        Some t \<Rightarrow> t
      | None \<Rightarrow> if key \<in> set Object_prototype then prototype_member key else UNDEFINED)"

text \<open>The constructor: \<^verbatim>\<open>this._processedMessages = {}\<close> and
  \<^verbatim>\<open>typeMapping: { ...DEFAULT_TYPE_MAPPING, ...config.typeMapping }\<close>. The cache is keyed
  by the full names of Type objects, each the path from the root and so starting with a
  dot: no key of \<^verbatim>\<open>Object.prototype\<close> is one, and
  \<^verbatim>\<open>fullName in this._processedMessages\<close> is membership in the domain of the map.\<close>

record converter =
  processedMessages :: cache
  typeMapping :: type_mapping

definition ProtoToGlueConverter :: "type_mapping \<Rightarrow> converter" where
  "ProtoToGlueConverter config =
     \<lparr>processedMessages = Map.empty, typeMapping = DEFAULT_TYPE_MAPPING ++ config\<rparr>"

text \<open>
  \<^verbatim>\<open>_detectCircularReference(messageType, referenceMessageType)\<close>. The recursion of the
  source has no bound; the first argument bounds its depth here, and \<open>None\<close> says that
  the bound was reached, so a call that never returns is \<open>None\<close> at every bound. A
  result carries the root as the call leaves it.
\<close>

fun detectCircularReference ::
    "nat \<Rightarrow> root \<Rightarrow> string \<Rightarrow> string \<Rightarrow> (root \<times> (error + unit)) option"
and detect_nested ::
    "nat \<Rightarrow> root \<Rightarrow> field list \<Rightarrow> string \<Rightarrow> (root \<times> (error + unit)) option"
where
  "detectCircularReference 0 r messageType referenceMessageType = None"
| "detectCircularReference (Suc n) r messageType referenceMessageType =
     (case resolveAll r messageType of
        (r1, Inl e) \<Rightarrow> Some (r1, Inl e)
      | (r1, Inr _) \<Rightarrow>
          (let circularFields =
                 filter (\<lambda>s. resolvedType s = Some (Type referenceMessageType))
                   (fields_of r1 messageType)
           in if length circularFields > 0
              then Some (r1, Inl (Circular_reference referenceMessageType))
              else detect_nested n r1 (fields_of r1 messageType) referenceMessageType))"
| "detect_nested n r [] referenceMessageType = Some (r, Inr ())"
| "detect_nested n r (field # rest) referenceMessageType =
     (case resolvedType field of
        Some (Type t) \<Rightarrow>
          (case detectCircularReference n r t referenceMessageType of
             None \<Rightarrow> None
           | Some (r1, Inl e) \<Rightarrow> Some (r1, Inl e)
           | Some (r1, Inr _) \<Rightarrow> detect_nested n r1 rest referenceMessageType)
      | _ \<Rightarrow> detect_nested n r rest referenceMessageType)"

text \<open>Sequencing: \<open>proceed m k\<close> runs \<open>k\<close> on what \<open>m\<close> returned, and is \<open>m\<close>'s
  outcome when \<open>m\<close> threw or did not return; \<open>resolving r c f k\<close> is
  \<^verbatim>\<open>field.resolve()\<close> followed by \<open>k\<close> on the root and the field as resolved.\<close>

definition proceed ::
    "('s \<times> 'c \<times> (error + 'a)) option \<Rightarrow> ('s \<Rightarrow> 'c \<Rightarrow> 'a \<Rightarrow> ('s \<times> 'c \<times> (error + 'b)) option)
       \<Rightarrow> ('s \<times> 'c \<times> (error + 'b)) option" where
  "proceed m k =
     (case m of
        None \<Rightarrow> None
      | Some (s, c, Inl e) \<Rightarrow> Some (s, c, Inl e)
      | Some (s, c, Inr x) \<Rightarrow> k s c x)"

definition resolving ::
    "root \<Rightarrow> 'c \<Rightarrow> field \<Rightarrow> (root \<Rightarrow> field \<Rightarrow> (root \<times> 'c \<times> (error + 'b)) option)
       \<Rightarrow> (root \<times> 'c \<times> (error + 'b)) option" where
  "resolving r c f k =
     (case resolve r f of
        (r1, Inl e) \<Rightarrow> Some (r1, c, Inl e)
      | (r1, Inr f') \<Rightarrow> k r1 f')"

text \<open>
  \<^verbatim>\<open>_convertNonRepeatedField\<close>, \<^verbatim>\<open>_resolveRepeatedField\<close>, \<^verbatim>\<open>_convertField\<close> and
  \<^verbatim>\<open>_convertMessageType\<close>; \<open>convertFields\<close> is the \<^verbatim>\<open>map\<close> over the fields. The state
  is the root and the cache \<^verbatim>\<open>_processedMessages\<close>; what a call has written stays written
  when it throws. The bound counts the nesting of \<^verbatim>\<open>_convertMessageType\<close>; a cached
  type is returned at any bound.
\<close>

function convertNonRepeatedField ::
    "nat \<Rightarrow> type_mapping \<Rightarrow> root \<Rightarrow> cache \<Rightarrow> field \<Rightarrow> (root \<times> cache \<times> (error + column)) option"
and resolveRepeatedField ::
    "nat \<Rightarrow> type_mapping \<Rightarrow> root \<Rightarrow> cache \<Rightarrow> field \<Rightarrow> (root \<times> cache \<times> (error + column)) option"
and convertField ::
    "nat \<Rightarrow> type_mapping \<Rightarrow> root \<Rightarrow> cache \<Rightarrow> field \<Rightarrow> (root \<times> cache \<times> (error + column)) option"
and convertMessageType ::
    "nat \<Rightarrow> type_mapping \<Rightarrow> root \<Rightarrow> cache \<Rightarrow> string
       \<Rightarrow> (root \<times> cache \<times> (error + column list)) option"
and convertFields ::
    "nat \<Rightarrow> type_mapping \<Rightarrow> root \<Rightarrow> cache \<Rightarrow> field list
       \<Rightarrow> (root \<times> cache \<times> (error + column list)) option"
where
  "convertNonRepeatedField n tm r c field0 =
     resolving r c field0 (\<lambda>r1 field.
       (case resolvedType field of
          Some (Type fieldType) \<Rightarrow>
            proceed (convertMessageType n tm r1 c fieldType) (\<lambda>r2 c2 columns.
              Some (r2, c2, Inr (Column (name field) (struct columns))))
        | Some (Enum fieldType) \<Rightarrow>
            Some (r1, c, Inr (Column (name field) (property tm ''enum'')))
        | None \<Rightarrow>
            (if assertKey tm (type field)
             then Some (r1, c, Inr (Column (name field) (property tm (type field))))
             else Some (r1, c, Inl (Unsupported_field_type (type field))))))"
| "resolveRepeatedField n tm r c field0 =
     resolving r c field0 (\<lambda>r1 field.
       proceed (convertNonRepeatedField n tm r1 c field) (\<lambda>r2 c2 col.
         Some (r2, c2, Inr (Column (name field) (array (column_type col))))))"
| "convertField n tm r c field0 =
     resolving r c field0 (\<lambda>r1 field.
       (if repeated field
        then resolveRepeatedField n tm r1 c field
        else convertNonRepeatedField n tm r1 c field))"
| "convertMessageType n tm r c messageType =
     (case c messageType of
        Some columns \<Rightarrow> Some (r, c, Inr columns)
      | None \<Rightarrow>
          (case n of
             0 \<Rightarrow> None
           | Suc m \<Rightarrow>
               (case detectCircularReference m r messageType messageType of
                  None \<Rightarrow> None
                | Some (r1, Inl e) \<Rightarrow> Some (r1, c, Inl e)
                | Some (r1, Inr _) \<Rightarrow>
                    proceed (convertFields m tm r1 c (fields_of r1 messageType))
                      (\<lambda>r2 c2 columns.
                         Some (r2, c2(messageType \<mapsto> columns), Inr columns)))))"
| "convertFields n tm r c [] = Some (r, c, Inr [])"
| "convertFields n tm r c (field # rest) =
     proceed (convertField n tm r c field) (\<lambda>r1 c1 col.
     proceed (convertFields n tm r1 c1 rest) (\<lambda>r2 c2 cols.
     Some (r2, c2, Inr (col # cols))))"
  by pat_completeness auto

termination
  by (relation "measures [
     case_sum (case_sum (\<lambda>(n, _). n) (\<lambda>(n, _). n))
       (case_sum (\<lambda>(n, _). n) (case_sum (\<lambda>(n, _). n) (\<lambda>(n, _). n))),
     case_sum (case_sum (\<lambda>_. 1) (\<lambda>_. 2))
       (case_sum (\<lambda>_. 3) (case_sum (\<lambda>_. 0) (\<lambda>_. 4))),
     case_sum (case_sum (\<lambda>_. 0) (\<lambda>_. 0))
       (case_sum (\<lambda>_. 0) (case_sum (\<lambda>_. 0) (\<lambda>(n, tm, r, c, fs). length fs)))]")
    auto

text \<open>
  \<^verbatim>\<open>_loadProtoFile\<close> and \<^verbatim>\<open>generateGlueSchema\<close>. \<open>loadSync\<close> stands for the file system
  and the parser: what \<^verbatim>\<open>new protobuf.Root().loadSync(protoFile)\<close> returns or throws. Both
  \<^verbatim>\<open>catch\<close> blocks log and throw the error again. The root is dropped when the call
  returns; the cache stays with the converter.
\<close>

definition loadProtoFile :: "(string \<Rightarrow> error + root) \<Rightarrow> string \<Rightarrow> error + root" where
  "loadProtoFile loadSync protoFile = loadSync protoFile"

definition generateGlueSchema ::
    "nat \<Rightarrow> type_mapping \<Rightarrow> (string \<Rightarrow> error + root) \<Rightarrow> cache \<Rightarrow> string \<Rightarrow> string option
       \<Rightarrow> (cache \<times> (error + column list)) option" where
  "generateGlueSchema n tm loadSync c protoFile messageName =
     (case loadProtoFile loadSync protoFile of
        Inl e \<Rightarrow> Some (c, Inl e)
      | Inr r0 \<Rightarrow>
          (case root_resolveAll r0 of
             (r, Inl e) \<Rightarrow> Some (c, Inl e)
           | (r, Inr _) \<Rightarrow>
               (case (case messageName of
                        Some path \<Rightarrow> map_sum id Some (lookupType r path)
                      | None \<Rightarrow> Inr (find instanceof_Type (nestedArray r))) of
                  Inl e \<Rightarrow> Some (c, Inl e)
                | Inr None \<Rightarrow> Some (c, Inl Message_type_not_found)
                | Inr (Some targetType) \<Rightarrow>
                    (case convertMessageType n tm r c (fullName targetType) of
                       None \<Rightarrow> None
                     | Some (r', c', res) \<Rightarrow> Some (c', res)))))"

text \<open>\<^verbatim>\<open>convertProtoToGlueSchema\<close>: a new converter for each call.\<close>

definition convertProtoToGlueSchema ::
    "nat \<Rightarrow> (string \<Rightarrow> error + root) \<Rightarrow> string \<Rightarrow> string option \<Rightarrow> type_mapping
       \<Rightarrow> (cache \<times> (error + column list)) option" where
  "convertProtoToGlueSchema n loadSync protoFile messageName config =
     (let this = ProtoToGlueConverter config
      in generateGlueSchema n (typeMapping this) loadSync (processedMessages this)
           protoFile messageName)"

section \<open>Resolved roots and the containment graph\<close>

definition resolved_root :: "root \<Rightarrow> bool" where
  "resolved_root r = list_all (\<lambda>(t, fs). list_all resolved fs) (types r)"

definition references :: "root \<Rightarrow> string \<Rightarrow> string \<Rightarrow> bool" where
  "references r t t' = list_ex (\<lambda>f. resolvedType f = Some (Type t')) (fields_of r t)"

definition containment :: "root \<Rightarrow> (string \<times> string) set" where
  "containment r = {(t, t'). references r t t'}"

definition int32_field :: field where
  "int32_field = \<lparr>name = ''age'', type = ''int32'', repeated = False, parent = ''.User'',
                   resolved = True, resolvedType = None\<rparr>"

definition enum_field :: field where
  "enum_field = \<lparr>name = ''user_status'', type = ''GlobalStatus'', repeated = False,
                  parent = ''.User'', resolved = True, resolvedType = Some (Enum ''.GlobalStatus'')\<rparr>"

text \<open>Example roots, as \<^verbatim>\<open>root.resolveAll()\<close> leaves them. \<open>fld\<close> is a resolved field.\<close>

definition fld :: "string \<Rightarrow> string \<Rightarrow> string \<Rightarrow> bool \<Rightarrow> resolved_type option \<Rightarrow> field" where
  "fld p n t rep rt =
     \<lparr>name = n, type = t, repeated = rep, parent = p, resolved = True, resolvedType = rt\<rparr>"

text \<open>\<^verbatim>\<open>message User { string name = 1; int32 age = 2; repeated string hobbies = 3;
  Address address = 4; } message Address { string street = 1; string city = 2; }\<close>\<close>

definition user_root :: root where
  "user_root =
     \<lparr>nestedArray = [NestedEnum ''.Status'', NestedType ''.User'', NestedType ''.Address''],
      types =
        [(''.User'',
            [fld ''.User'' ''name'' ''string'' False None,
             fld ''.User'' ''age'' ''int32'' False None,
             fld ''.User'' ''hobbies'' ''string'' True None,
             fld ''.User'' ''address'' ''Address'' False (Some (Type ''.Address''))]),
         (''.Address'',
            [fld ''.Address'' ''street'' ''string'' False None,
             fld ''.Address'' ''city'' ''string'' False None])],
      enums = [''.Status'']\<rparr>"

text \<open>A second schema source: another \<^verbatim>\<open>Address\<close>, with one field.\<close>

definition other_root :: root where
  "other_root =
     \<lparr>nestedArray = [NestedType ''.Address''],
      types = [(''.Address'', [fld ''.Address'' ''zip'' ''int32'' False None])],
      enums = []\<rparr>"

definition empty_root :: root where
  "empty_root = \<lparr>nestedArray = [NestedEnum ''.Status''], types = [], enums = [''.Status'']\<rparr>"

definition address_columns :: "column list" where
  "address_columns = [Column ''street'' STRING, Column ''city'' STRING]"

definition user_columns :: "column list" where
  "user_columns =
     [Column ''name'' STRING, Column ''age'' INTEGER, Column ''hobbies'' (array STRING),
      Column ''address'' (struct address_columns)]"

text \<open>The root of the repository's test, before resolution:
  \<^verbatim>\<open>enum GlobalStatus { ... } message TestMessage { GlobalStatus user_status = 10; }\<close>\<close>

definition unresolved_field :: field where
  "unresolved_field =
     \<lparr>name = ''user_status'', type = ''.GlobalStatus'', repeated = False,
      parent = ''.TestMessage'', resolved = False, resolvedType = None\<rparr>"

definition unresolved_root :: root where
  "unresolved_root =
     \<lparr>nestedArray = [NestedEnum ''.GlobalStatus'', NestedType ''.TestMessage''],
      types = [(''.TestMessage'', [unresolved_field])],
      enums = [''.GlobalStatus'']\<rparr>"

text \<open>\<^verbatim>\<open>message M { string a = 1; uint32 b = 2; string c = 3; }\<close>: \<^verbatim>\<open>uint32\<close> is a
  scalar type of protobuf that the default mapping does not have.\<close>

definition unsupported_root :: root where
  "unsupported_root =
     \<lparr>nestedArray = [NestedType ''.M''],
      types = [(''.M'', [fld ''.M'' ''a'' ''string'' False None,
                         fld ''.M'' ''b'' ''uint32'' False None,
                         fld ''.M'' ''c'' ''string'' False None])],
      enums = []\<rparr>"

text \<open>The references that the detection follows: it goes into the fields of a type only
  when none of them is typed as \<open>origin\<close>.\<close>

definition walk :: "root \<Rightarrow> string \<Rightarrow> (string \<times> string) set" where
  "walk r origin = {(t, t'). \<not> references r t origin \<and> references r t t'}"

text \<open>The roots of the repository's circular-reference tests:
  \<^verbatim>\<open>message CircularMessage { CircularMessage self = 1; string name = 2; }\<close> and
  \<^verbatim>\<open>message MessageA { MessageB ref = 1; string name = 2; }
  message MessageB { MessageA back_ref = 1; int32 value = 2; }\<close>.\<close>

definition self_root :: root where
  "self_root =
     \<lparr>nestedArray = [NestedType ''.CircularMessage''],
      types = [(''.CircularMessage'',
                  [fld ''.CircularMessage'' ''self'' ''CircularMessage'' False
                     (Some (Type ''.CircularMessage'')),
                   fld ''.CircularMessage'' ''name'' ''string'' False None])],
      enums = []\<rparr>"

definition cyc_root :: root where
  "cyc_root =
     \<lparr>nestedArray = [NestedType ''.MessageA'', NestedType ''.MessageB''],
      types = [(''.MessageA'',
                  [fld ''.MessageA'' ''ref'' ''MessageB'' False (Some (Type ''.MessageB'')),
                   fld ''.MessageA'' ''name'' ''string'' False None]),
               (''.MessageB'',
                  [fld ''.MessageB'' ''back_ref'' ''MessageA'' False (Some (Type ''.MessageA'')),
                   fld ''.MessageB'' ''value'' ''int32'' False None])],
      enums = []\<rparr>"

text \<open>\<^verbatim>\<open>message A { B b = 1; } message B { C c = 1; } message C { B b = 1; }\<close>: a cycle
  that is reachable from \<^verbatim>\<open>A\<close> and does not pass through \<^verbatim>\<open>A\<close>.\<close>

definition loop_root :: root where
  "loop_root =
     \<lparr>nestedArray = [NestedType ''.A'', NestedType ''.B'', NestedType ''.C''],
      types = [(''.A'', [fld ''.A'' ''b'' ''B'' False (Some (Type ''.B''))]),
               (''.B'', [fld ''.B'' ''c'' ''C'' False (Some (Type ''.C''))]),
               (''.C'', [fld ''.C'' ''b'' ''B'' False (Some (Type ''.B''))])],
      enums = []\<rparr>"

text \<open>\<^verbatim>\<open>message A { B b = 1; C c = 2; } message B { B b = 1; } message C { A a = 1; }\<close>:
  \<^verbatim>\<open>A\<close> is reachable from itself through \<^verbatim>\<open>C\<close>, behind the self-reference of \<^verbatim>\<open>B\<close>.\<close>

definition behind_root :: root where
  "behind_root =
     \<lparr>nestedArray = [NestedType ''.A'', NestedType ''.B'', NestedType ''.C''],
      types = [(''.A'', [fld ''.A'' ''b'' ''B'' False (Some (Type ''.B'')),
                         fld ''.A'' ''c'' ''C'' False (Some (Type ''.C''))]),
               (''.B'', [fld ''.B'' ''b'' ''B'' False (Some (Type ''.B''))]),
               (''.C'', [fld ''.C'' ''a'' ''A'' False (Some (Type ''.A''))])],
      enums = []\<rparr>"

text \<open>
  Columns that follow a field list: one column per field, in the same order, each named
  after its field; and the column of a field typed as a message type is the structure
  (the list of the structure, for a repeated field) of columns that follow that type's
  fields in turn.
\<close>

fun follows :: "root \<Rightarrow> column list \<Rightarrow> field list \<Rightarrow> bool"
and column_follows :: "root \<Rightarrow> column \<Rightarrow> field \<Rightarrow> bool"
where
  "follows r [] [] = True"
| "follows r (col # cols) (f # fs) = (column_follows r col f \<and> follows r cols fs)"
| "follows r [] (f # fs) = False"
| "follows r (col # cols) [] = False"
| "column_follows r (Column x ty) f =
     (x = name f \<and>
      (case resolvedType f of
         Some (Type u) \<Rightarrow>
           (case ty of
              struct sub \<Rightarrow> \<not> repeated f \<and> follows r sub (fields_of r u)
            | array (struct sub) \<Rightarrow> repeated f \<and> follows r sub (fields_of r u)
            | _ \<Rightarrow> False)
       | _ \<Rightarrow> True))"

definition cache_follows :: "root \<Rightarrow> cache \<Rightarrow> bool" where
  "cache_follows r c = (\<forall>t cols. c t = Some cols \<longrightarrow> follows r cols (fields_of r t))"

text \<open>\<^verbatim>\<open>message M { string a = 1; toString b = 2; string c = 3; }\<close>, its fields resolved
  to no message and no enum: \<^verbatim>\<open>toString\<close> is no entry of the default mapping and is a
  key of \<^verbatim>\<open>Object.prototype\<close>. The field \<^verbatim>\<open>b\<close> is the mock field of the repository's
  test of an unsupported type, with the tag \<^verbatim>\<open>toString\<close> for \<^verbatim>\<open>unsupported_type\<close>.\<close>

definition inherited_root :: root where
  "inherited_root =
     \<lparr>nestedArray = [NestedType ''.M''],
      types = [(''.M'', [fld ''.M'' ''a'' ''string'' False None,
                         fld ''.M'' ''b'' ''toString'' False None,
                         fld ''.M'' ''c'' ''string'' False None])],
      enums = []\<rparr>"

definition inherited_columns :: "column list" where
  "inherited_columns =
     [Column ''a'' STRING, Column ''b'' (prototype_member ''toString''), Column ''c'' STRING]"

text \<open>
  A type is supported by a mapping when the tag of each of its fields that resolves to no
  message and no enum passes \<open>assertKey\<close>; it is supported below when every type that
  it reaches through fields typed as messages is supported, itself included. A cache is
  supported when every type that it holds is supported below.
\<close>

definition supported :: "type_mapping \<Rightarrow> root \<Rightarrow> string \<Rightarrow> bool" where
  "supported tm r t =
     list_all (\<lambda>f. resolvedType f = None \<longrightarrow> assertKey tm (type f)) (fields_of r t)"

definition supported_below :: "type_mapping \<Rightarrow> root \<Rightarrow> string \<Rightarrow> bool" where
  "supported_below tm r t = (\<forall>u. (t, u) \<in> (containment r)\<^sup>* \<longrightarrow> supported tm r u)"

definition cache_supported :: "type_mapping \<Rightarrow> root \<Rightarrow> cache \<Rightarrow> bool" where
  "cache_supported tm r c = (\<forall>t cols. c t = Some cols \<longrightarrow> supported_below tm r t)"

text \<open>\<^verbatim>\<open>message Outer { Inner inner = 1; } message Inner { uint32 n = 1; }\<close>: the field
  of the unsupported tag is one level down.\<close>

definition nested_unsupported_root :: root where
  "nested_unsupported_root =
     \<lparr>nestedArray = [NestedType ''.Outer'', NestedType ''.Inner''],
      types = [(''.Outer'', [fld ''.Outer'' ''inner'' ''Inner'' False (Some (Type ''.Inner''))]),
               (''.Inner'', [fld ''.Inner'' ''n'' ''uint32'' False None])],
      enums = []\<rparr>"

section \<open>Properties\<close>

lemma proceed_simps [simp]:
  "proceed None k = None"
  "proceed (Some (s, c, Inl e)) k = Some (s, c, Inl e)"
  "proceed (Some (s, c, Inr x)) k = k s c x"
  by (simp_all add: proceed_def)

lemma proceed_eq_Some:
  "proceed m k = Some y \<longleftrightarrow>
     (\<exists>s c e. m = Some (s, c, Inl e) \<and> y = (s, c, Inl e)) \<or>
     (\<exists>s c x. m = Some (s, c, Inr x) \<and> k s c x = Some y)"
  by (auto simp: proceed_def split: option.splits sum.splits)

lemma assertKey_own [simp]: "tm k = Some t \<Longrightarrow> assertKey tm k"
  by (auto simp: assertKey_def)

lemma property_own [simp]: "tm k = Some t \<Longrightarrow> property tm k = t"
  by (simp add: property_def)

lemma assertKey_inherited:
  "tm k = None \<Longrightarrow> assertKey tm k = (k \<in> set Object_prototype)"
  by (auto simp: assertKey_def)

lemma property_inherited:
  "tm k = None \<Longrightarrow> k \<in> set Object_prototype \<Longrightarrow> property tm k = prototype_member k"
  by (simp add: property_def)

lemma not_assertKey: "\<not> assertKey tm k \<Longrightarrow> tm k = None"
  by (auto simp: assertKey_def)

lemma resolve_resolved [simp]: "resolved f \<Longrightarrow> resolve r f = (r, Inr f)"
  by (simp add: resolve_def)

lemma resolving_resolved [simp]: "resolved f \<Longrightarrow> resolving r c f k = k r f"
  by (simp add: resolving_def)

lemma fields_of_resolved:
  assumes "resolved_root r" and "f \<in> set (fields_of r t)"
  shows "resolved f"
proof (cases "map_of (types r) t")
  case None
  with assms show ?thesis by (simp add: fields_of_def)
next
  case (Some fs)
  then have "(t, fs) \<in> set (types r)" by (rule map_of_SomeD)
  with assms Some show ?thesis
    by (auto simp: resolved_root_def fields_of_def list_all_iff)
qed

lemma resolve_fields_resolved:
  "(\<And>f. f \<in> set fs \<Longrightarrow> resolved f) \<Longrightarrow> resolve_fields r fs = (r, Inr ())"
  by (induction fs) simp_all

lemma resolveAll_resolved [simp]: "resolved_root r \<Longrightarrow> resolveAll r t = (r, Inr ())"
  unfolding resolveAll_def by (rule resolve_fields_resolved) (rule fields_of_resolved)

lemma detect_Suc_resolved:
  "resolved_root r \<Longrightarrow>
   detectCircularReference (Suc n) r t ref =
     (if references r t ref then Some (r, Inl (Circular_reference ref))
      else detect_nested n r (fields_of r t) ref)"
  by (auto simp: references_def list_ex_iff filter_empty_conv Let_def)

declare detectCircularReference.simps(2) [simp del]

declare convertNonRepeatedField.simps [simp del] resolveRepeatedField.simps [simp del]
  convertField.simps [simp del] convertMessageType.simps [simp del]

lemma detect_nested_Cons:
  "detect_nested n r (f # fs) ref =
     (case resolvedType f of
        Some (Type t) \<Rightarrow>
          (case detectCircularReference n r t ref of
             None \<Rightarrow> None
           | Some (r1, Inl e) \<Rightarrow> Some (r1, Inl e)
           | Some (r1, Inr _) \<Rightarrow> detect_nested n r1 fs ref)
      | _ \<Rightarrow> detect_nested n r fs ref)"
  by (simp split: option.splits resolved_type.splits)

lemma detect_nested_frame_step:
  assumes step: "\<And>t r' x. detectCircularReference n r t ref = Some (r', x) \<Longrightarrow> r' = r"
  shows "detect_nested n r fs ref = Some (r', x) \<Longrightarrow> r' = r"
proof (induction fs)
  case Nil
  then show ?case by simp
next
  case (Cons f fs)
  then show ?case
    by (auto split: option.splits resolved_type.splits sum.splits dest: step)
qed

lemma detect_frame:
  "resolved_root r \<Longrightarrow> detectCircularReference n r t ref = Some (r', x) \<Longrightarrow> r' = r"
proof (induction n arbitrary: t r' x)
  case 0
  then show ?case by simp
next
  case (Suc n)
  show ?case
  proof (cases "references r t ref")
    case True
    with Suc.prems show ?thesis by (simp add: detect_Suc_resolved)
  next
    case False
    with Suc.prems have "detect_nested n r (fields_of r t) ref = Some (r', x)"
      by (simp add: detect_Suc_resolved)
    then show ?thesis
      by (rule detect_nested_frame_step[rotated]) (rule Suc.IH[OF Suc.prems(1)])
  qed
qed

lemma detect_nested_frame:
  "resolved_root r \<Longrightarrow> detect_nested n r fs ref = Some (r', x) \<Longrightarrow> r' = r"
  by (erule detect_nested_frame_step[rotated]) (rule detect_frame)

lemma detect_nested_pass:
  assumes "resolved_root r"
  shows "detect_nested n r fs ref = Some (r', Inr u) \<longleftrightarrow>
           r' = r \<and> (\<forall>f\<in>set fs. \<forall>t. resolvedType f = Some (Type t) \<longrightarrow>
                       detectCircularReference n r t ref = Some (r, Inr ()))"
proof (induction fs)
  case Nil
  then show ?case by auto
next
  case (Cons f fs)
  show ?case
  proof (cases "resolvedType f")
    case None
    with Cons show ?thesis by simp
  next
    case (Some a)
    show ?thesis
    proof (cases a)
      case (Enum e)
      with Some Cons show ?thesis by simp
    next
      case (Type t)
      show ?thesis
      proof (cases "detectCircularReference n r t ref")
        case None
        with Some Type show ?thesis by simp
      next
        case res: (Some res)
        obtain r1 y where y: "res = (r1, y)" by (cases res)
        with res detect_frame[OF assms] have r1: "r1 = r" by blast
        show ?thesis
        proof (cases y)
          case (Inl e)
          with res y r1 Some Type show ?thesis by auto
        next
          case (Inr v)
          with res y r1 Some Type Cons show ?thesis by auto
        qed
      qed
    qed
  qed
qed

lemma detect_pass_Suc:
  assumes "resolved_root r"
  shows "detectCircularReference (Suc n) r t ref = Some (r', Inr u) \<longleftrightarrow>
           r' = r \<and> \<not> references r t ref \<and>
           (\<forall>t'. references r t t' \<longrightarrow> detectCircularReference n r t' ref = Some (r, Inr ()))"
  using assms
  by (auto simp: detect_Suc_resolved detect_nested_pass references_def list_ex_iff)

lemma detect_pass_no_back_edge:
  assumes "resolved_root r"
  shows "detectCircularReference n r t ref = Some (r', Inr u) \<Longrightarrow>
         (t, v) \<in> (containment r)\<^sup>* \<Longrightarrow> \<not> references r v ref"
proof (induction n arbitrary: t r' u)
  case 0
  then show ?case by simp
next
  case (Suc n)
  from Suc.prems(1) have here: "\<not> references r t ref"
    and below: "\<And>t'. references r t t' \<Longrightarrow> detectCircularReference n r t' ref = Some (r, Inr ())"
    by (simp_all add: detect_pass_Suc[OF assms])
  from Suc.prems(2) show ?case
  proof (cases rule: converse_rtranclE)
    case base
    with here show ?thesis by simp
  next
    case (step t')
    then have "references r t t'" by (simp add: containment_def)
    from Suc.IH[OF below[OF this] step(2)] show ?thesis .
  qed
qed

lemma detect_nested_Cons_resolved:
  assumes "resolved_root r"
  shows "detect_nested n r (f # fs) ref =
     (case resolvedType f of
        Some (Type t) \<Rightarrow>
          (case detectCircularReference n r t ref of
             None \<Rightarrow> None
           | Some (_, Inl e) \<Rightarrow> Some (r, Inl e)
           | Some (_, Inr _) \<Rightarrow> detect_nested n r fs ref)
      | _ \<Rightarrow> detect_nested n r fs ref)"
proof (cases "resolvedType f")
  case None
  then show ?thesis by simp
next
  case (Some a)
  show ?thesis
  proof (cases a)
    case (Enum e)
    with Some show ?thesis by simp
  next
    case (Type t)
    show ?thesis
    proof (cases "detectCircularReference n r t ref")
      case None
      with Some Type show ?thesis by simp
    next
      case res: (Some res)
      obtain r1 y where y: "res = (r1, y)" by (cases res)
      with res detect_frame[OF assms] have "r1 = r" by blast
      with res y Some Type show ?thesis by (cases y) simp_all
    qed
  qed
qed

lemma detect_nested_error_step:
  assumes "resolved_root r"
    and step: "\<And>t r' e. detectCircularReference n r t ref = Some (r', Inl e) \<Longrightarrow> e = Circular_reference ref"
  shows "detect_nested n r fs ref = Some (r', Inl e) \<Longrightarrow> e = Circular_reference ref"
proof (induction fs)
  case Nil
  then show ?case by simp
next
  case (Cons f fs)
  from Cons.prems have
    "(case resolvedType f of
        Some (Type t) \<Rightarrow>
          (case detectCircularReference n r t ref of
             None \<Rightarrow> None
           | Some (_, Inl e) \<Rightarrow> Some (r, Inl e)
           | Some (_, Inr _) \<Rightarrow> detect_nested n r fs ref)
      | _ \<Rightarrow> detect_nested n r fs ref) = Some (r', Inl e)"
    by (simp only: detect_nested_Cons_resolved[OF assms(1)])
  then show ?case
    using Cons.IH step
    by (auto split: option.splits resolved_type.splits sum.splits prod.splits)
qed

lemma detect_error:
  assumes "resolved_root r"
  shows "detectCircularReference n r t ref = Some (r', Inl e) \<Longrightarrow> e = Circular_reference ref"
proof (induction n arbitrary: t r' e)
  case 0
  then show ?case by simp
next
  case (Suc n)
  show ?case
  proof (cases "references r t ref")
    case True
    with Suc.prems assms show ?thesis by (simp add: detect_Suc_resolved)
  next
    case False
    with Suc.prems assms have "detect_nested n r (fields_of r t) ref = Some (r', Inl e)"
      by (simp add: detect_Suc_resolved)
    then show ?thesis
      by (rule detect_nested_error_step[OF assms, rotated]) (rule Suc.IH)
  qed
qed

lemma resolve_result:
  assumes "resolve r f = (r1, Inr f1)"
  shows "resolved f1" and "name f1 = name f" and "type f1 = type f"
    and "repeated f1 = repeated f" and "parent f1 = parent f"
  using assms
  by (auto simp: resolve_def Let_def split: if_splits option.splits)

lemma resolving_result:
  "resolve r f = (r1, Inr f1) \<Longrightarrow> resolving r c f k = k r1 f1"
  by (simp add: resolving_def)

lemma resolving_error:
  "resolve r f = (r1, Inl e) \<Longrightarrow> resolving r c f k = Some (r1, c, Inl e)"
  by (simp add: resolving_def)

lemma convertNonRepeatedField_resolved:
  assumes "resolve r f = (r1, Inr f1)"
  shows "convertNonRepeatedField n tm r c f =
     (case resolvedType f1 of
        Some (Type fieldType) \<Rightarrow>
          proceed (convertMessageType n tm r1 c fieldType) (\<lambda>r2 c2 columns.
            Some (r2, c2, Inr (Column (name f) (struct columns))))
      | Some (Enum fieldType) \<Rightarrow>
          Some (r1, c, Inr (Column (name f) (property tm ''enum'')))
      | None \<Rightarrow>
          (if assertKey tm (type f)
           then Some (r1, c, Inr (Column (name f) (property tm (type f))))
           else Some (r1, c, Inl (Unsupported_field_type (type f)))))"
  by (simp add: convertNonRepeatedField.simps resolving_result[OF assms] resolve_result[OF assms]
           split: option.splits resolved_type.splits)

lemma convertField_resolved:
  assumes "resolve r f = (r1, Inr f1)"
  shows "convertField n tm r c f =
     (if repeated f
      then proceed (convertNonRepeatedField n tm r1 c f1) (\<lambda>r2 c2 col.
             Some (r2, c2, Inr (Column (name f) (array (column_type col)))))
      else convertNonRepeatedField n tm r1 c f1)"
  using resolve_result[OF assms]
  by (simp add: convertField.simps resolveRepeatedField.simps resolving_result[OF assms])

lemma convertNonRepeatedField_again:
  assumes "resolve r f = (r1, Inr f1)"
  shows "convertNonRepeatedField n tm r1 c f1 = convertNonRepeatedField n tm r c f"
proof -
  have "resolve r1 f1 = (r1, Inr f1)"
    using resolve_result(1)[OF assms] by simp
  from convertNonRepeatedField_resolved[OF this] convertNonRepeatedField_resolved[OF assms]
  show ?thesis
    by (simp add: resolve_result[OF assms] split: option.splits resolved_type.splits)
qed

text \<open>
  C3. A non-repeated field that resolves to a primitive tag with an entry in the active
  mapping becomes the column of the field's name and of the entry's type. A converter
  built with no override has exactly the nine default entries, and an override replaces
  the default of its key only. A field that resolves to an enum, whatever the enum, gets
  the mapping's entry for \<open>enum\<close> (inside a list when the field is repeated) and is never
  a structure.
\<close>

theorem convertField_scalar_and_enum:
  assumes "resolve r f = (r1, Inr f1)"
  shows "(resolvedType f1 = None \<and> \<not> repeated f \<and> tm (type f) = Some t \<longrightarrow>
            convertField n tm r c f = Some (r1, c, Inr (Column (name f) t)))
       \<and> typeMapping (ProtoToGlueConverter Map.empty) =
            map_of [(''double'', DOUBLE), (''float'', FLOAT), (''int64'', BIG_INT),
                    (''uint64'', BIG_INT), (''int32'', INTEGER), (''bool'', BOOLEAN),
                    (''string'', STRING), (''bytes'', STRING), (''enum'', STRING)]
       \<and> typeMapping (ProtoToGlueConverter config) k =
            (case config k of Some t' \<Rightarrow> Some t' | None \<Rightarrow> DEFAULT_TYPE_MAPPING k)
       \<and> (resolvedType f1 = Some (Enum e) \<and> tm ''enum'' = Some t \<longrightarrow>
            convertField n tm r c f =
              Some (r1, c, Inr (Column (name f) (if repeated f then array t else t))))"
proof (intro conjI impI)
  assume "resolvedType f1 = None \<and> \<not> repeated f \<and> tm (type f) = Some t"
  then show "convertField n tm r c f = Some (r1, c, Inr (Column (name f) t))"
    by (simp add: convertField_resolved[OF assms] convertNonRepeatedField_again[OF assms]
                  convertNonRepeatedField_resolved[OF assms])
next
  show "typeMapping (ProtoToGlueConverter Map.empty) =
            map_of [(''double'', DOUBLE), (''float'', FLOAT), (''int64'', BIG_INT),
                    (''uint64'', BIG_INT), (''int32'', INTEGER), (''bool'', BOOLEAN),
                    (''string'', STRING), (''bytes'', STRING), (''enum'', STRING)]"
    by (rule ext) (simp add: ProtoToGlueConverter_def DEFAULT_TYPE_MAPPING_def)
next
  show "typeMapping (ProtoToGlueConverter config) k =
            (case config k of Some t' \<Rightarrow> Some t' | None \<Rightarrow> DEFAULT_TYPE_MAPPING k)"
    by (simp add: ProtoToGlueConverter_def map_add_def split: option.splits)
next
  assume "resolvedType f1 = Some (Enum e) \<and> tm ''enum'' = Some t"
  then show "convertField n tm r c f =
              Some (r1, c, Inr (Column (name f) (if repeated f then array t else t)))"
    by (simp add: convertField_resolved[OF assms] convertNonRepeatedField_again[OF assms]
                  convertNonRepeatedField_resolved[OF assms])
qed

theorem convertField_scalar_and_enum_witness:
  "convertField 0 DEFAULT_TYPE_MAPPING \<lparr>nestedArray = [], types = [], enums = []\<rparr> Map.empty
     int32_field =
     Some (\<lparr>nestedArray = [], types = [], enums = []\<rparr>, Map.empty, Inr (Column ''age'' INTEGER))
   \<and> convertField 0 DEFAULT_TYPE_MAPPING \<lparr>nestedArray = [], types = [], enums = []\<rparr> Map.empty
     enum_field =
     Some (\<lparr>nestedArray = [], types = [], enums = []\<rparr>, Map.empty,
           Inr (Column ''user_status'' STRING))"
proof -
  let ?r = "\<lparr>nestedArray = [], types = [], enums = []\<rparr>"
  have a: "resolve ?r int32_field = (?r, Inr int32_field)"
    by (simp add: int32_field_def)
  have b: "resolve ?r enum_field = (?r, Inr enum_field)"
    by (simp add: enum_field_def)
  show ?thesis
    using convertField_scalar_and_enum[OF a, of DEFAULT_TYPE_MAPPING INTEGER 0 Map.empty]
      convertField_scalar_and_enum[OF b, of DEFAULT_TYPE_MAPPING STRING 0 Map.empty _ _ "''.GlobalStatus''"]
    by (simp add: int32_field_def enum_field_def DEFAULT_TYPE_MAPPING_def)
qed

lemma resolving_cases:
  assumes "resolving r c f k = Some y"
  obtains (threw) r1 e where "resolve r f = (r1, Inl e)" and "y = (r1, c, Inl e)"
        | (resolved) r1 f1 where "resolve r f = (r1, Inr f1)" and "k r1 f1 = Some y"
  using assms by (auto simp: resolving_def split: prod.splits sum.splits)

lemma proceed_cases:
  assumes "proceed m k = Some y"
  obtains (threw) s c e where "m = Some (s, c, Inl e)" and "y = (s, c, Inl e)"
        | (returned) s c x where "m = Some (s, c, Inr x)" and "k s c x = Some y"
  using assms by (auto simp: proceed_eq_Some)

text \<open>What a call finds in the cache is still there, unchanged, when the call ends.\<close>

lemma convertNonRepeatedField_cache_step:
  assumes mt: "\<And>r c t r' c' res. convertMessageType n tm r c t = Some (r', c', res) \<Longrightarrow> c \<subseteq>\<^sub>m c'"
    and run: "convertNonRepeatedField n tm r c f = Some (r', c', res)"
  shows "c \<subseteq>\<^sub>m c'"
  using run unfolding convertNonRepeatedField.simps
proof (cases rule: resolving_cases)
  case (threw r1 e)
  then show ?thesis by simp
next
  case (resolved r1 f1)
  show ?thesis
  proof (cases "resolvedType f1")
    case None
    with resolved(2) show ?thesis by (auto split: if_splits)
  next
    case (Some a)
    show ?thesis
    proof (cases a)
      case (Enum e)
      with Some resolved(2) show ?thesis by auto
    next
      case (Type t)
      with Some resolved(2) show ?thesis
        by (auto elim!: proceed_cases dest: mt)
    qed
  qed
qed

lemma convertField_cache_step:
  assumes mt: "\<And>r c t r' c' res. convertMessageType n tm r c t = Some (r', c', res) \<Longrightarrow> c \<subseteq>\<^sub>m c'"
    and run: "convertField n tm r c f = Some (r', c', res)"
  shows "c \<subseteq>\<^sub>m c'"
  using run unfolding convertField.simps
proof (cases rule: resolving_cases)
  case (threw r1 e)
  then show ?thesis by simp
next
  case (resolved r1 f1)
  show ?thesis
  proof (cases "repeated f1")
    case False
    with resolved(2) show ?thesis
      by (auto dest: convertNonRepeatedField_cache_step[OF mt, rotated])
  next
    case True
    with resolved(2) have "resolveRepeatedField n tm r1 c f1 = Some (r', c', res)" by simp
    then show ?thesis
      unfolding resolveRepeatedField.simps
      by (auto elim!: resolving_cases proceed_cases
               dest: convertNonRepeatedField_cache_step[OF mt, rotated])
  qed
qed

lemma convertFields_cache_step:
  assumes mt: "\<And>r c t r' c' res. convertMessageType n tm r c t = Some (r', c', res) \<Longrightarrow> c \<subseteq>\<^sub>m c'"
  shows "convertFields n tm r c fs = Some (r', c', res) \<Longrightarrow> c \<subseteq>\<^sub>m c'"
proof (induction fs arbitrary: r c r' c' res)
  case Nil
  then show ?case by simp
next
  case (Cons f fs)
  from Cons.prems show ?case
    by (auto elim!: proceed_cases dest: convertField_cache_step[OF mt, rotated] Cons.IH
             intro: map_le_trans)
qed

lemma convertMessageType_cached:
  "c t = Some cols \<Longrightarrow> convertMessageType n tm r c t = Some (r, c, Inr cols)"
  by (simp add: convertMessageType.simps)

lemma convertMessageType_0: "c t = None \<Longrightarrow> convertMessageType 0 tm r c t = None"
  by (simp add: convertMessageType.simps)

lemma convertMessageType_Suc:
  "c t = None \<Longrightarrow>
   convertMessageType (Suc m) tm r c t =
     (case detectCircularReference m r t t of
        None \<Rightarrow> None
      | Some (r1, Inl e) \<Rightarrow> Some (r1, c, Inl e)
      | Some (r1, Inr _) \<Rightarrow>
          proceed (convertFields m tm r1 c (fields_of r1 t))
            (\<lambda>r2 c2 columns. Some (r2, c2(t \<mapsto> columns), Inr columns)))"
  by (simp add: convertMessageType.simps)

lemma convertMessageType_Suc_cases:
  assumes "convertMessageType (Suc m) tm r c t = Some y" and "c t = None"
  obtains
    (cycle) r1 e where "detectCircularReference m r t t = Some (r1, Inl e)"
      and "y = (r1, c, Inl e)"
  | (threw) r1 r2 c2 e where "detectCircularReference m r t t = Some (r1, Inr ())"
      and "convertFields m tm r1 c (fields_of r1 t) = Some (r2, c2, Inl e)"
      and "y = (r2, c2, Inl e)"
  | (returned) r1 r2 c2 columns where "detectCircularReference m r t t = Some (r1, Inr ())"
      and "convertFields m tm r1 c (fields_of r1 t) = Some (r2, c2, Inr columns)"
      and "y = (r2, c2(t \<mapsto> columns), Inr columns)"
  using assms
  by (auto simp: convertMessageType_Suc proceed_eq_Some split: option.splits sum.splits)

lemma convertMessageType_cache:
  "convertMessageType n tm r c t = Some (r', c', res) \<Longrightarrow> c \<subseteq>\<^sub>m c'"
proof (induction n arbitrary: r c t r' c' res)
  case 0
  then show ?case by (auto simp: convertMessageType.simps split: option.splits)
next
  case (Suc n)
  show ?case
  proof (cases "c t")
    case (Some cols)
    with Suc.prems show ?thesis by (simp add: convertMessageType_cached)
  next
    case None
    from Suc.prems None show ?thesis
    proof (cases rule: convertMessageType_Suc_cases)
      case (cycle r1 e)
      then show ?thesis by simp
    next
      case (threw r1 r2 c2 e)
      with convertFields_cache_step[OF Suc.IH threw(2)] show ?thesis by simp
    next
      case (returned r1 r2 c2 columns)
      from convertFields_cache_step[OF Suc.IH returned(2)] have "c \<subseteq>\<^sub>m c2" .
      with None returned(3) show ?thesis
        by (auto simp: map_le_def dom_def)
    qed
  qed
qed

lemma root_resolveAll_resolved:
  assumes "resolved_root r"
  shows "root_resolveAll r = (r, Inr ())"
proof -
  have "resolve_types r ts = (r, Inr ())" for ts
    by (induction ts) (simp_all add: assms)
  then show ?thesis by (simp add: root_resolveAll_def)
qed

lemma convertField_fld:
  "convertField n tm r c (fld p x t False None) =
     (if assertKey tm t then Some (r, c, Inr (Column x (property tm t)))
      else Some (r, c, Inl (Unsupported_field_type t)))"
  "convertField n tm r c (fld p x t True None) =
     (if assertKey tm t then Some (r, c, Inr (Column x (array (property tm t))))
      else Some (r, c, Inl (Unsupported_field_type t)))"
  "convertField n tm r c (fld p x t False (Some (Type u))) =
     proceed (convertMessageType n tm r c u) (\<lambda>r2 c2 columns.
       Some (r2, c2, Inr (Column x (struct columns))))"
  by (simp_all add: fld_def convertField.simps convertNonRepeatedField.simps
        resolveRepeatedField.simps split: option.splits)

lemma DEFAULT_TYPE_MAPPING_entries:
  "DEFAULT_TYPE_MAPPING ''double'' = Some DOUBLE"
  "DEFAULT_TYPE_MAPPING ''float'' = Some FLOAT"
  "DEFAULT_TYPE_MAPPING ''int64'' = Some BIG_INT"
  "DEFAULT_TYPE_MAPPING ''uint64'' = Some BIG_INT"
  "DEFAULT_TYPE_MAPPING ''int32'' = Some INTEGER"
  "DEFAULT_TYPE_MAPPING ''bool'' = Some BOOLEAN"
  "DEFAULT_TYPE_MAPPING ''string'' = Some STRING"
  "DEFAULT_TYPE_MAPPING ''bytes'' = Some STRING"
  "DEFAULT_TYPE_MAPPING ''enum'' = Some STRING"
  "DEFAULT_TYPE_MAPPING ''uint32'' = None"
  by (simp_all add: DEFAULT_TYPE_MAPPING_def)

lemma user_root_resolved: "resolved_root user_root"
  by (simp add: resolved_root_def user_root_def fld_def)

lemma user_root_fields:
  "fields_of user_root ''.Address'' =
     [fld ''.Address'' ''street'' ''string'' False None,
      fld ''.Address'' ''city'' ''string'' False None]"
  "fields_of user_root ''.User'' =
     [fld ''.User'' ''name'' ''string'' False None,
      fld ''.User'' ''age'' ''int32'' False None,
      fld ''.User'' ''hobbies'' ''string'' True None,
      fld ''.User'' ''address'' ''Address'' False (Some (Type ''.Address''))]"
  by (simp_all add: fields_of_def user_root_def)

lemma user_root_detect:
  "detectCircularReference (Suc n) user_root ''.Address'' t = Some (user_root, Inr ())"
  "detectCircularReference (Suc (Suc n)) user_root ''.User'' ''.User'' = Some (user_root, Inr ())"
  by (simp_all add: detect_Suc_resolved[OF user_root_resolved] references_def user_root_fields
        fld_def)

lemma user_root_Address:
  "convertMessageType (Suc (Suc n)) DEFAULT_TYPE_MAPPING user_root Map.empty ''.Address'' =
     Some (user_root, [''.Address'' \<mapsto> address_columns], Inr address_columns)"
  by (simp add: convertMessageType_Suc user_root_detect user_root_fields convertField_fld
        DEFAULT_TYPE_MAPPING_entries address_columns_def)

lemma user_root_User:
  "convertMessageType (Suc (Suc (Suc n))) DEFAULT_TYPE_MAPPING user_root Map.empty ''.User'' =
     Some (user_root, [''.Address'' \<mapsto> address_columns, ''.User'' \<mapsto> user_columns],
           Inr user_columns)"
  by (simp add: convertMessageType_Suc[of Map.empty] user_root_detect user_root_fields
        convertField_fld user_root_Address user_columns_def DEFAULT_TYPE_MAPPING_entries)

lemma convertMessageType_success_cached:
  assumes "convertMessageType n tm r c t = Some (r1, c1, Inr columns)"
  shows "c1 t = Some columns"
proof (cases "c t")
  case (Some cols)
  with assms show ?thesis by (simp add: convertMessageType_cached)
next
  case None
  show ?thesis
  proof (cases n)
    case 0
    with assms None show ?thesis by (simp add: convertMessageType_0)
  next
    case (Suc m)
    with assms have "convertMessageType (Suc m) tm r c t = Some (r1, c1, Inr columns)" by simp
    then show ?thesis using None
      by (cases rule: convertMessageType_Suc_cases) simp_all
  qed
qed

text \<open>
  C5. When a call of \<open>convertMessageType\<close> on a type has returned columns, a second call
  on the same name with the cache as the first call left it returns the same columns and
  leaves the cache and the root as they are. It does so at every bound, also at bound 0
  where no traversal and no cycle detection can run, for every root (no field is read)
  and for every mapping (no entry is looked up).
\<close>

theorem convertMessageType_idempotent:
  assumes "convertMessageType n tm r c t = Some (r1, c1, Inr columns)"
  shows "convertMessageType m tm' r' c1 t = Some (r', c1, Inr columns)"
  by (rule convertMessageType_cached) (rule convertMessageType_success_cached[OF assms])

theorem convertMessageType_idempotent_witness:
  "convertMessageType 0 Map.empty \<lparr>nestedArray = [], types = [], enums = []\<rparr>
     [''.Address'' \<mapsto> address_columns, ''.User'' \<mapsto> user_columns] ''.User'' =
     Some (\<lparr>nestedArray = [], types = [], enums = []\<rparr>,
           [''.Address'' \<mapsto> address_columns, ''.User'' \<mapsto> user_columns], Inr user_columns)"
  by (rule convertMessageType_idempotent[OF user_root_User[of 0]])

lemma instanceof_Type_simps [simp]:
  "instanceof_Type (NestedType t)"
  "\<not> instanceof_Type (NestedEnum t)"
  "\<not> instanceof_Type (Namespace t)"
  by (simp_all add: instanceof_Type_def)

lemma fullName_simps [simp]:
  "fullName (NestedType t) = t"
  "fullName (NestedEnum t) = t"
  "fullName (Namespace t) = t"
  by (simp_all add: fullName_def)

lemma find_instanceof_Type:
  "find instanceof_Type xs = Some x \<Longrightarrow> \<exists>t. x = NestedType t"
proof (induction xs)
  case Nil
  then show ?case by simp
next
  case (Cons y ys)
  then show ?case by (cases y) (auto split: if_splits)
qed

lemma generateGlueSchema_resolved:
  assumes "loadSync protoFile = Inr r0" and "root_resolveAll r0 = (r, Inr ())"
  shows "generateGlueSchema n tm loadSync c protoFile (Some path) =
           (case map_of (types r) path of
              None \<Rightarrow> Some (c, Inl (No_such_type path))
            | Some _ \<Rightarrow> map_option snd (convertMessageType n tm r c path))"
    and "generateGlueSchema n tm loadSync c protoFile None =
           (case find instanceof_Type (nestedArray r) of
              Some (NestedType t) \<Rightarrow> map_option snd (convertMessageType n tm r c t)
            | _ \<Rightarrow> Some (c, Inl Message_type_not_found))"
proof -
  show "generateGlueSchema n tm loadSync c protoFile (Some path) =
           (case map_of (types r) path of
              None \<Rightarrow> Some (c, Inl (No_such_type path))
            | Some _ \<Rightarrow> map_option snd (convertMessageType n tm r c path))"
    using assms
    by (auto simp: generateGlueSchema_def loadProtoFile_def lookupType_def
             split: option.splits)
  show "generateGlueSchema n tm loadSync c protoFile None =
           (case find instanceof_Type (nestedArray r) of
              Some (NestedType t) \<Rightarrow> map_option snd (convertMessageType n tm r c t)
            | _ \<Rightarrow> Some (c, Inl Message_type_not_found))"
    using assms
    by (auto simp: generateGlueSchema_def loadProtoFile_def
             split: option.splits reflection_object.splits
             dest: find_instanceof_Type)
qed

lemma generateGlueSchema_cache:
  assumes "generateGlueSchema n tm loadSync c protoFile messageName = Some (c', res)"
  shows "c \<subseteq>\<^sub>m c'"
  using assms
  by (auto simp: generateGlueSchema_def lookupType_def
           split: sum.splits prod.splits option.splits
           dest: convertMessageType_cache)

lemma other_root_resolved: "resolved_root other_root"
  by (simp add: resolved_root_def other_root_def fld_def)

lemma empty_root_resolved: "resolved_root empty_root"
  by (simp add: resolved_root_def empty_root_def)

text \<open>
  C7. Once the source has loaded and resolved: with a message name that the root does not
  have, \<open>generateGlueSchema\<close> fails with \<^verbatim>\<open>no such type\<close> carrying the name; with no
  name and no message type among the top-level declarations it fails with
  \<^verbatim>\<open>Message type not found in proto file\<close>; the two errors differ; and with no name
  it converts the first top-level message type in declaration order, passing over
  declarations that are not message types.
\<close>

theorem generateGlueSchema_target:
  assumes "loadSync protoFile = Inr r0" and "root_resolveAll r0 = (r, Inr ())"
  shows "(map_of (types r) path = None \<longrightarrow>
            generateGlueSchema n tm loadSync c protoFile (Some path) =
              Some (c, Inl (No_such_type path)))
       \<and> (list_all (\<lambda>nested. \<not> instanceof_Type nested)
             (nestedArray r) \<longrightarrow>
            generateGlueSchema n tm loadSync c protoFile None =
              Some (c, Inl Message_type_not_found))
       \<and> No_such_type path \<noteq> Message_type_not_found
       \<and> (nestedArray r = before @ NestedType t # rest \<and>
          list_all (\<lambda>nested. \<not> instanceof_Type nested) before \<longrightarrow>
            generateGlueSchema n tm loadSync c protoFile None =
              map_option snd (convertMessageType n tm r c t))"
proof (intro conjI impI)
  assume "map_of (types r) path = None"
  then show "generateGlueSchema n tm loadSync c protoFile (Some path) =
              Some (c, Inl (No_such_type path))"
    by (simp add: generateGlueSchema_resolved(1)[where loadSync=loadSync and protoFile=protoFile, OF assms])
next
  assume "list_all (\<lambda>nested. \<not> instanceof_Type nested) (nestedArray r)"
  then have "find instanceof_Type (nestedArray r)
               = None"
    by (auto simp: find_None_iff list_all_iff split: reflection_object.splits)
  then show "generateGlueSchema n tm loadSync c protoFile None =
              Some (c, Inl Message_type_not_found)"
    by (simp add: generateGlueSchema_resolved(2)[where loadSync=loadSync and protoFile=protoFile, OF assms])
next
  show "No_such_type path \<noteq> Message_type_not_found" by simp
next
  assume a: "nestedArray r = before @ NestedType t # rest \<and>
          list_all (\<lambda>nested. \<not> instanceof_Type nested) before"
  have "find instanceof_Type
          (xs @ NestedType t # rest) = Some (NestedType t)"
    if "list_all (\<lambda>nested. \<not> instanceof_Type nested) xs" for xs
    using that by (induction xs) (auto split: reflection_object.splits)
  with a have "find instanceof_Type (nestedArray r)
               = Some (NestedType t)"
    by simp
  then show "generateGlueSchema n tm loadSync c protoFile None =
              map_option snd (convertMessageType n tm r c t)"
    by (simp add: generateGlueSchema_resolved(2)[where loadSync=loadSync and protoFile=protoFile, OF assms])
qed

theorem generateGlueSchema_target_witness:
  "generateGlueSchema 3 DEFAULT_TYPE_MAPPING (\<lambda>_. Inr user_root) Map.empty ''user.proto''
     (Some ''.Missing'') = Some (Map.empty, Inl (No_such_type ''.Missing''))
   \<and> generateGlueSchema 3 DEFAULT_TYPE_MAPPING (\<lambda>_. Inr empty_root) Map.empty ''empty.proto''
     None = Some (Map.empty, Inl Message_type_not_found)
   \<and> generateGlueSchema 3 DEFAULT_TYPE_MAPPING (\<lambda>_. Inr user_root) Map.empty ''user.proto''
     None =
     Some ([''.Address'' \<mapsto> address_columns, ''.User'' \<mapsto> user_columns], Inr user_columns)"
proof -
  have u: "(\<lambda>_. Inr user_root) ''user.proto'' = Inr user_root"
    and e: "(\<lambda>_. Inr empty_root) ''empty.proto'' = Inr empty_root"
    by simp_all
  note U = generateGlueSchema_target[where loadSync="\<lambda>_. Inr user_root"
      and protoFile="''user.proto''" and n=3 and tm=DEFAULT_TYPE_MAPPING and c=Map.empty,
      OF u root_resolveAll_resolved[OF user_root_resolved]]
  note E = generateGlueSchema_target[where loadSync="\<lambda>_. Inr empty_root"
      and protoFile="''empty.proto''" and n=3 and tm=DEFAULT_TYPE_MAPPING and c=Map.empty,
      OF e root_resolveAll_resolved[OF empty_root_resolved]]
  have "map_of (types user_root) ''.Missing'' = None"
    by (simp add: user_root_def)
  with U[where path="''.Missing''"]
  have 1: "generateGlueSchema 3 DEFAULT_TYPE_MAPPING (\<lambda>_. Inr user_root)
      Map.empty ''user.proto'' (Some ''.Missing'') = Some (Map.empty, Inl (No_such_type ''.Missing''))"
    by blast
  have "list_all (\<lambda>nested. \<not> instanceof_Type nested)
          (nestedArray empty_root)"
    by (simp add: empty_root_def)
  with E have 2: "generateGlueSchema 3 DEFAULT_TYPE_MAPPING (\<lambda>_. Inr empty_root) Map.empty
      ''empty.proto'' None = Some (Map.empty, Inl Message_type_not_found)"
    by blast
  have "nestedArray user_root = [NestedEnum ''.Status''] @ NestedType ''.User'' #
          [NestedType ''.Address''] \<and>
        list_all (\<lambda>nested. \<not> instanceof_Type nested)
          [NestedEnum ''.Status'']"
    by (simp add: user_root_def)
  with U[where before="[NestedEnum ''.Status'']" and t="''.User''"
      and rest="[NestedType ''.Address'']"]
  have "generateGlueSchema 3 DEFAULT_TYPE_MAPPING (\<lambda>_. Inr user_root) Map.empty ''user.proto''
      None = map_option snd (convertMessageType 3 DEFAULT_TYPE_MAPPING user_root Map.empty ''.User'')"
    by blast
  then have 3: "generateGlueSchema 3 DEFAULT_TYPE_MAPPING (\<lambda>_. Inr user_root) Map.empty
      ''user.proto'' None =
      Some ([''.Address'' \<mapsto> address_columns, ''.User'' \<mapsto> user_columns], Inr user_columns)"
    using user_root_User[of 0] by (simp add: numeral_3_eq_3)
  from 1 2 3 show ?thesis by blast
qed

text \<open>
  C10. The cache is keyed by the full name alone and stays with the converter. A call of
  \<open>convertMessageType\<close> or \<open>generateGlueSchema\<close> for a name that the cache holds
  returns the cached columns, whatever root the call reads (also one loaded from another
  source, where the type of that name has other fields) and whatever the mapping; and
  every entry that the cache holds when a call starts is in the cache, unchanged, when the
  call ends.
\<close>

theorem cache_persists:
  "(c t = Some columns \<longrightarrow> convertMessageType n tm r c t = Some (r, c, Inr columns))
   \<and> (c t = Some columns \<and> loadSync protoFile = Inr r0 \<and> root_resolveAll r0 = (r, Inr ()) \<and>
      map_of (types r) t \<noteq> None \<longrightarrow>
        generateGlueSchema n tm loadSync c protoFile (Some t) = Some (c, Inr columns))
   \<and> (c t = Some columns \<and> loadSync protoFile = Inr r0 \<and> root_resolveAll r0 = (r, Inr ()) \<and>
      find instanceof_Type (nestedArray r) =
        Some (NestedType t) \<longrightarrow>
        generateGlueSchema n tm loadSync c protoFile None = Some (c, Inr columns))
   \<and> (convertMessageType n tm r c u = Some (r', c', res) \<longrightarrow> c \<subseteq>\<^sub>m c')
   \<and> (convertField n tm r c f = Some (r', c', res') \<longrightarrow> c \<subseteq>\<^sub>m c')
   \<and> (generateGlueSchema n tm loadSync c protoFile messageName = Some (c'', res'') \<longrightarrow>
        c \<subseteq>\<^sub>m c'')"
proof (intro conjI impI)
  assume "c t = Some columns"
  then show "convertMessageType n tm r c t = Some (r, c, Inr columns)"
    by (rule convertMessageType_cached)
next
  assume a: "c t = Some columns \<and> loadSync protoFile = Inr r0 \<and>
      root_resolveAll r0 = (r, Inr ()) \<and> map_of (types r) t \<noteq> None"
  then have "loadSync protoFile = Inr r0" and "root_resolveAll r0 = (r, Inr ())" by simp_all
  from generateGlueSchema_resolved(1)[where loadSync=loadSync and protoFile=protoFile, OF this] a
  show "generateGlueSchema n tm loadSync c protoFile (Some t) = Some (c, Inr columns)"
    by (auto simp: convertMessageType_cached)
next
  assume a: "c t = Some columns \<and> loadSync protoFile = Inr r0 \<and>
      root_resolveAll r0 = (r, Inr ()) \<and>
      find instanceof_Type (nestedArray r) =
        Some (NestedType t)"
  then have "loadSync protoFile = Inr r0" and "root_resolveAll r0 = (r, Inr ())" by simp_all
  from generateGlueSchema_resolved(2)[where loadSync=loadSync and protoFile=protoFile, OF this] a
  show "generateGlueSchema n tm loadSync c protoFile None = Some (c, Inr columns)"
    by (auto simp: convertMessageType_cached)
next
  assume "convertMessageType n tm r c u = Some (r', c', res)"
  then show "c \<subseteq>\<^sub>m c'" by (rule convertMessageType_cache)
next
  assume "convertField n tm r c f = Some (r', c', res')"
  then show "c \<subseteq>\<^sub>m c'"
    by (rule convertField_cache_step[rotated]) (rule convertMessageType_cache)
next
  assume "generateGlueSchema n tm loadSync c protoFile messageName = Some (c'', res'')"
  then show "c \<subseteq>\<^sub>m c''" by (rule generateGlueSchema_cache)
qed

theorem cache_persists_witness:
  "generateGlueSchema 0 Map.empty (\<lambda>_. Inr other_root)
     [''.Address'' \<mapsto> address_columns, ''.User'' \<mapsto> user_columns] ''other.proto''
     (Some ''.Address'') =
     Some ([''.Address'' \<mapsto> address_columns, ''.User'' \<mapsto> user_columns], Inr address_columns)
   \<and> (Map.empty :: cache) \<subseteq>\<^sub>m [''.Address'' \<mapsto> address_columns, ''.User'' \<mapsto> user_columns]"
proof -
  let ?c = "[''.Address'' \<mapsto> address_columns, ''.User'' \<mapsto> user_columns]"
  have pre: "?c ''.Address'' = Some address_columns \<and>
        (\<lambda>_. Inr other_root) ''other.proto'' = Inr other_root \<and>
        root_resolveAll other_root = (other_root, Inr ()) \<and>
        map_of (types other_root) ''.Address'' \<noteq> None"
    by (simp add: root_resolveAll_resolved[OF other_root_resolved]) (simp add: other_root_def)
  have run: "convertMessageType 3 DEFAULT_TYPE_MAPPING user_root Map.empty ''.User'' =
      Some (user_root, ?c, Inr user_columns)"
    using user_root_User[of 0] by (simp add: numeral_3_eq_3)
  note T = cache_persists[where c="?c" and t="''.Address''" and columns=address_columns
        and n=0 and tm=Map.empty and r=other_root and loadSync="\<lambda>_. Inr other_root"
        and protoFile="''other.proto''" and ?r0.0=other_root]
  have 1: "generateGlueSchema 0 Map.empty (\<lambda>_. Inr other_root) ?c ''other.proto''
      (Some ''.Address'') = Some (?c, Inr address_columns)"
    by (rule mp[OF conjunct1[OF conjunct2[OF T]] pre])
  note V = cache_persists[where c=Map.empty and n=3 and tm=DEFAULT_TYPE_MAPPING
        and r=user_root and u="''.User''" and r'=user_root and c'="?c"
        and res="Inr user_columns"]
  have 2: "(Map.empty :: cache) \<subseteq>\<^sub>m ?c"
    by (rule mp[OF conjunct1[OF conjunct2[OF conjunct2[OF conjunct2[OF V]]]] run])
  from 1 2 show ?thesis by blast
qed

lemma convertNonRepeatedField_frame_step:
  assumes "resolved_root r" and "resolved f"
    and mt: "\<And>c t r' c' res. convertMessageType n tm r c t = Some (r', c', res) \<Longrightarrow> r' = r"
    and run: "convertNonRepeatedField n tm r c f = Some (r', c', res)"
  shows "r' = r"
proof -
  have res: "resolve r f = (r, Inr f)" using assms(2) by simp
  show ?thesis
  proof (cases "resolvedType f")
    case None
    with run show ?thesis
      by (auto simp: convertNonRepeatedField_resolved[OF res] split: if_splits)
  next
    case (Some a)
    show ?thesis
    proof (cases a)
      case (Enum e)
      with Some run show ?thesis
        by (auto simp: convertNonRepeatedField_resolved[OF res])
    next
      case (Type t)
      with Some run show ?thesis
        by (auto simp: convertNonRepeatedField_resolved[OF res] elim!: proceed_cases dest: mt)
    qed
  qed
qed

lemma convertField_frame_step:
  assumes "resolved_root r" and "resolved f"
    and mt: "\<And>c t r' c' res. convertMessageType n tm r c t = Some (r', c', res) \<Longrightarrow> r' = r"
    and run: "convertField n tm r c f = Some (r', c', res)"
  shows "r' = r"
proof -
  have res: "resolve r f = (r, Inr f)" using assms(2) by simp
  have step: "r' = r" if "convertNonRepeatedField n tm r c f = Some (r', c', res)"
    for c r' c' res
    using assms(1,2) mt that by (rule convertNonRepeatedField_frame_step)
  from run show ?thesis
    by (auto simp: convertField_resolved[OF res] split: if_splits elim!: proceed_cases
             dest: step)
qed

lemma convertFields_frame_step:
  assumes "resolved_root r"
    and mt: "\<And>c t r' c' res. convertMessageType n tm r c t = Some (r', c', res) \<Longrightarrow> r' = r"
  shows "(\<And>f. f \<in> set fs \<Longrightarrow> resolved f) \<Longrightarrow>
         convertFields n tm r c fs = Some (r', c', res) \<Longrightarrow> r' = r"
proof (induction fs arbitrary: c r' c' res)
  case Nil
  then show ?case by simp
next
  case (Cons f fs)
  have f: "resolved f" using Cons.prems(1) by simp
  from Cons.prems(2) have
    "proceed (convertField n tm r c f) (\<lambda>r1 c1 col.
       proceed (convertFields n tm r1 c1 fs) (\<lambda>r2 c2 cols.
       Some (r2, c2, Inr (col # cols)))) = Some (r', c', res)"
    by simp
  then show ?case
  proof (cases rule: proceed_cases)
    case (threw s c1 e)
    with convertField_frame_step[OF assms(1) f mt threw(1)] show ?thesis by simp
  next
    case (returned s c1 col)
    from convertField_frame_step[OF assms(1) f mt returned(1)] have s: "s = r" .
    from returned(2) show ?thesis
    proof (cases rule: proceed_cases)
      case (threw s2 c2 e)
      with Cons.IH[OF _ threw(1)[unfolded s]] Cons.prems(1) show ?thesis by simp
    next
      case (returned s2 c2 cols)
      with Cons.IH[OF _ returned(1)[unfolded s]] Cons.prems(1) show ?thesis by simp
    qed
  qed
qed

lemma convertMessageType_frame:
  assumes "resolved_root r"
  shows "convertMessageType n tm r c t = Some (r', c', res) \<Longrightarrow> r' = r"
proof (induction n arbitrary: c t r' c' res)
  case 0
  then show ?case by (auto simp: convertMessageType.simps split: option.splits)
next
  case (Suc n)
  show ?case
  proof (cases "c t")
    case (Some cols)
    with Suc.prems show ?thesis by (simp add: convertMessageType_cached)
  next
    case None
    note fs = fields_of_resolved[OF assms]
    from Suc.prems None show ?thesis
    proof (cases rule: convertMessageType_Suc_cases)
      case (cycle r1 e)
      with detect_frame[OF assms cycle(1)] show ?thesis by simp
    next
      case (threw r1 r2 c2 e)
      from detect_frame[OF assms threw(1)] have "r1 = r" .
      with convertFields_frame_step[OF assms Suc.IH fs threw(2)[unfolded \<open>r1 = r\<close>]] threw(3)
      show ?thesis by simp
    next
      case (returned r1 r2 c2 columns)
      from detect_frame[OF assms returned(1)] have "r1 = r" .
      with convertFields_frame_step[OF assms Suc.IH fs returned(2)[unfolded \<open>r1 = r\<close>]] returned(3)
      show ?thesis by simp
    qed
  qed
qed

lemma convertField_frame:
  assumes "resolved_root r" and "resolved f"
    and "convertField n tm r c f = Some (r', c', res)"
  shows "r' = r"
  using assms(1,2) convertMessageType_frame[OF assms(1)] assms(3)
  by (rule convertField_frame_step)

lemma convertFields_frame:
  assumes "resolved_root r" and "\<And>f. f \<in> set fs \<Longrightarrow> resolved f"
    and "convertFields n tm r c fs = Some (r', c', res)"
  shows "r' = r"
  using assms(1) convertMessageType_frame[OF assms(1)] assms(2,3)
  by (rule convertFields_frame_step)

text \<open>
  C9. On a resolved root, which is what \<open>generateGlueSchema\<close> hands to the converter
  after \<^verbatim>\<open>root.resolveAll()\<close>, every call of \<open>convertField\<close> (on a resolved field),
  \<open>detectCircularReference\<close> and \<open>convertMessageType\<close> that returns or throws leaves
  the root exactly as it found it: \<^verbatim>\<open>resolve()\<close> and \<^verbatim>\<open>resolveAll()\<close> write
  nothing there. The mapping is not part of the state, so the cache is all they write.
\<close>

theorem converter_leaves_resolved_root:
  assumes "resolved_root r"
  shows "(resolved f \<and> convertField n tm r c f = Some (r1, c1, res1) \<longrightarrow> r1 = r)
       \<and> (detectCircularReference n r t ref = Some (r2, res2) \<longrightarrow> r2 = r)
       \<and> (convertMessageType n tm r c t = Some (r3, c3, res3) \<longrightarrow> r3 = r)"
  using convertField_frame[OF assms] detect_frame[OF assms] convertMessageType_frame[OF assms]
  by blast

theorem converter_leaves_resolved_root_witness:
  "resolved_root user_root \<and>
   convertMessageType 3 DEFAULT_TYPE_MAPPING user_root Map.empty ''.User'' =
     Some (user_root, [''.Address'' \<mapsto> address_columns, ''.User'' \<mapsto> user_columns],
           Inr user_columns)"
proof -
  obtain r3 c3 res3 where run:
    "convertMessageType 3 DEFAULT_TYPE_MAPPING user_root Map.empty ''.User'' = Some (r3, c3, res3)"
    using user_root_User[of 0] by (simp add: numeral_3_eq_3)
  with converter_leaves_resolved_root[OF user_root_resolved, where n=3 and c=Map.empty
      and tm=DEFAULT_TYPE_MAPPING and t="''.User''" and ?r3.0=r3 and ?c3.0=c3 and ?res3.0=res3]
  have "r3 = user_root" by blast
  with run user_root_User[of 0] user_root_resolved show ?thesis
    by (simp add: numeral_3_eq_3)
qed

text \<open>On a field that is not yet resolved, as the repository's test passes it,
  \<^verbatim>\<open>field.resolve()\<close> writes the resolved type into the field: the root after
  \<open>convertField\<close> is not the root before it.\<close>

theorem convertField_resolves_in_place:
  "convertField 0 DEFAULT_TYPE_MAPPING unresolved_root Map.empty unresolved_field =
     Some (unresolved_root
             \<lparr>types := [(''.TestMessage'',
                          [unresolved_field\<lparr>resolved := True,
                                            resolvedType := Some (Enum ''.GlobalStatus'')\<rparr>])]\<rparr>,
           Map.empty, Inr (Column ''user_status'' STRING))
   \<and> unresolved_root
        \<lparr>types := [(''.TestMessage'',
                     [unresolved_field\<lparr>resolved := True,
                                       resolvedType := Some (Enum ''.GlobalStatus'')\<rparr>])]\<rparr>
     \<noteq> unresolved_root"
proof -
  let ?f = "unresolved_field\<lparr>resolved := True, resolvedType := Some (Enum ''.GlobalStatus'')\<rparr>"
  let ?r = "unresolved_root\<lparr>types := [(''.TestMessage'', [?f])]\<rparr>"
  have res: "resolve unresolved_root unresolved_field = (?r, Inr ?f)"
    by (simp add: resolve_def basic_def lookupTypeOrEnum_def store_field_def
          unresolved_root_def unresolved_field_def Let_def)
  have "convertField 0 DEFAULT_TYPE_MAPPING unresolved_root Map.empty unresolved_field =
          Some (?r, Map.empty, Inr (Column ''user_status'' STRING))"
    by (simp add: convertField_resolved[OF res] convertNonRepeatedField_again[OF res]
          convertNonRepeatedField_resolved[OF res] DEFAULT_TYPE_MAPPING_entries)
       (simp add: unresolved_field_def)
  moreover have "?r \<noteq> unresolved_root"
    by (simp add: unresolved_root_def unresolved_field_def)
  ultimately show ?thesis by blast
qed

text \<open>
  C4. The column of a repeated field has the field's name, and its type is the list of
  the type that the singular path \<open>convertNonRepeatedField\<close> gives for the same field,
  whatever that is (a scalar, the enum's scalar, a structure); a throw or a failure to
  return of the singular path is the outcome of \<open>convertField\<close> too. The singular
  path does not read the flag: on a resolved field it is \<open>convertField\<close> of the field
  with the flag cleared, and its column is named after the field.
\<close>

theorem convertField_repeated:
  "(repeated f \<longrightarrow>
      convertField n tm r c f =
        (case convertNonRepeatedField n tm r c f of
           None \<Rightarrow> None
         | Some (r2, c2, Inl e) \<Rightarrow> Some (r2, c2, Inl e)
         | Some (r2, c2, Inr col) \<Rightarrow>
             Some (r2, c2, Inr (Column (name f) (array (column_type col))))))
   \<and> (resolved f \<longrightarrow>
        convertNonRepeatedField n tm r c f = convertField n tm r c (f\<lparr>repeated := False\<rparr>))
   \<and> (convertNonRepeatedField n tm r c f = Some (r', c', Inr col') \<longrightarrow>
        column_name col' = name f)"
proof (intro conjI impI)
  assume rep: "repeated f"
  obtain r1 y where y: "resolve r f = (r1, y)" by (cases "resolve r f")
  show "convertField n tm r c f =
        (case convertNonRepeatedField n tm r c f of
           None \<Rightarrow> None
         | Some (r2, c2, Inl e) \<Rightarrow> Some (r2, c2, Inl e)
         | Some (r2, c2, Inr col) \<Rightarrow>
             Some (r2, c2, Inr (Column (name f) (array (column_type col)))))"
  proof (cases y)
    case (Inl e)
    with y show ?thesis
      by (simp add: convertField.simps convertNonRepeatedField.simps resolving_error)
  next
    case (Inr f1)
    with y have res: "resolve r f = (r1, Inr f1)" by simp
    show ?thesis
      using rep
      by (simp add: convertField_resolved[OF res] convertNonRepeatedField_again[OF res]
            proceed_def)
  qed
next
  assume f: "resolved f"
  then have a: "resolve r f = (r, Inr f)"
    and b: "resolve r (f\<lparr>repeated := False\<rparr>) = (r, Inr (f\<lparr>repeated := False\<rparr>))"
    by simp_all
  show "convertNonRepeatedField n tm r c f = convertField n tm r c (f\<lparr>repeated := False\<rparr>)"
    by (simp add: convertField_resolved[OF b] convertNonRepeatedField_resolved[OF a]
          convertNonRepeatedField_resolved[OF b] split: option.splits resolved_type.splits)
next
  assume run: "convertNonRepeatedField n tm r c f = Some (r', c', Inr col')"
  obtain r1 y where y: "resolve r f = (r1, y)" by (cases "resolve r f")
  show "column_name col' = name f"
  proof (cases y)
    case (Inl e)
    with y run show ?thesis
      by (simp add: convertNonRepeatedField.simps resolving_error)
  next
    case (Inr f1)
    with y have res: "resolve r f = (r1, Inr f1)" by simp
    from run show ?thesis
      by (auto simp: convertNonRepeatedField_resolved[OF res]
               split: option.splits resolved_type.splits if_splits elim!: proceed_cases)
  qed
qed

lemma convertNonRepeatedField_fld:
  "convertNonRepeatedField n tm r c (fld p x t rep None) =
     (if assertKey tm t then Some (r, c, Inr (Column x (property tm t)))
      else Some (r, c, Inl (Unsupported_field_type t)))"
  "convertNonRepeatedField n tm r c (fld p x t rep (Some (Type u))) =
     proceed (convertMessageType n tm r c u) (\<lambda>r2 c2 columns.
       Some (r2, c2, Inr (Column x (struct columns))))"
  "convertNonRepeatedField n tm r c (fld p x t rep (Some (Enum u))) =
     Some (r, c, Inr (Column x (property tm ''enum'')))"
  by (simp_all add: fld_def convertNonRepeatedField.simps split: option.splits)

theorem convertField_repeated_witness:
  "convertField 2 DEFAULT_TYPE_MAPPING user_root Map.empty
     (fld ''.User'' ''addresses'' ''Address'' True (Some (Type ''.Address''))) =
     Some (user_root, [''.Address'' \<mapsto> address_columns],
           Inr (Column ''addresses'' (array (struct address_columns))))
   \<and> convertField 0 DEFAULT_TYPE_MAPPING user_root Map.empty
     (fld ''.User'' ''hobbies'' ''string'' True None) =
     Some (user_root, Map.empty, Inr (Column ''hobbies'' (array STRING)))
   \<and> convertField 0 DEFAULT_TYPE_MAPPING user_root Map.empty
     (fld ''.User'' ''status_history'' ''Status'' True (Some (Enum ''.Status''))) =
     Some (user_root, Map.empty, Inr (Column ''status_history'' (array STRING)))"
proof -
  have rep: "repeated (fld p x t True rt)" for p x t rt
    by (simp add: fld_def)
  have nm: "name (fld p x t True rt) = x" for p x t rt
    by (simp add: fld_def)
  note T = mp[OF conjunct1[OF convertField_repeated] rep]
  have "convertField 2 DEFAULT_TYPE_MAPPING user_root Map.empty
     (fld ''.User'' ''addresses'' ''Address'' True (Some (Type ''.Address''))) =
     Some (user_root, [''.Address'' \<mapsto> address_columns],
           Inr (Column ''addresses'' (array (struct address_columns))))"
    using user_root_Address[of 0]
    by (simp add: T nm convertNonRepeatedField_fld numeral_2_eq_2)
  moreover have "convertField 0 DEFAULT_TYPE_MAPPING user_root Map.empty
     (fld ''.User'' ''hobbies'' ''string'' True None) =
     Some (user_root, Map.empty, Inr (Column ''hobbies'' (array STRING)))"
    by (simp add: T nm convertNonRepeatedField_fld DEFAULT_TYPE_MAPPING_entries)
  moreover have "convertField 0 DEFAULT_TYPE_MAPPING user_root Map.empty
     (fld ''.User'' ''status_history'' ''Status'' True (Some (Enum ''.Status''))) =
     Some (user_root, Map.empty, Inr (Column ''status_history'' (array STRING)))"
    by (simp add: T nm convertNonRepeatedField_fld DEFAULT_TYPE_MAPPING_entries)
  ultimately show ?thesis by blast
qed

text \<open>
  A tag that is no key of the mapping, own or inherited, is rejected with
  \<^verbatim>\<open>Unsupported field type\<close>, for a repeated field as for a singular one.
\<close>

lemma convertField_unsupported:
  assumes "resolve r f = (r1, Inr f1)" and "resolvedType f1 = None"
    and "\<not> assertKey tm (type f)"
  shows "convertField n tm r c f = Some (r1, c, Inl (Unsupported_field_type (type f)))"
  using assms(2,3)
  by (simp add: convertField_resolved[OF assms(1)] convertNonRepeatedField_again[OF assms(1)]
        convertNonRepeatedField_resolved[OF assms(1)])

text \<open>
  Every failure goes up unchanged: a field that fails stops the conversion of the field
  list, with the state that the failing call left; a field list that fails is the
  failure of its type; a type that fails is the failure of the field typed as it, and of
  \<open>generateGlueSchema\<close>. No column is returned beside an error: the outcome is one or
  the other.
\<close>

lemma convertFields_abort:
  "convertFields n tm r c before = Some (r1, c1, Inr cols) \<Longrightarrow>
   convertField n tm r1 c1 f = Some (r2, c2, Inl e) \<Longrightarrow>
   convertFields n tm r c (before @ f # rest) = Some (r2, c2, Inl e)"
proof (induction before arbitrary: r c cols)
  case Nil
  then show ?case by simp
next
  case (Cons g before)
  from Cons.prems(1) have
    "proceed (convertField n tm r c g) (\<lambda>r1 c1 col.
       proceed (convertFields n tm r1 c1 before) (\<lambda>r2 c2 cols.
       Some (r2, c2, Inr (col # cols)))) = Some (r1, c1, Inr cols)"
    by simp
  then show ?case
  proof (cases rule: proceed_cases)
    case (threw s cs e')
    then show ?thesis by simp
  next
    case first: (returned s cs col)
    from first(2) show ?thesis
    proof (cases rule: proceed_cases)
      case (threw s2 cs2 e')
      then show ?thesis by simp
    next
      case (returned s2 cs2 cols')
      then have "convertFields n tm s cs before = Some (r1, c1, Inr cols')" by simp
      from Cons.IH[OF this Cons.prems(2)] first(1) show ?thesis by simp
    qed
  qed
qed

lemma convertFields_abort_never:
  assumes "convertFields n tm r c before = Some (r1, c1, Inr cols)"
    and "convertField n tm r1 c1 f = Some (r2, c2, Inl e)"
  shows "convertFields n tm r c (before @ f # rest) \<noteq> Some (r', c', Inr cols')"
  by (simp add: convertFields_abort[OF assms])

lemma convertMessageType_abort:
  assumes "c t = None" and "detectCircularReference m r t t = Some (r1, Inr ())"
    and "convertFields m tm r1 c (fields_of r1 t) = Some (r2, c2, Inl e)"
  shows "convertMessageType (Suc m) tm r c t = Some (r2, c2, Inl e)"
  using assms by (simp add: convertMessageType_Suc)

lemma convertField_abort:
  assumes "resolve r g = (r1, Inr g1)" and "resolvedType g1 = Some (Type u)"
    and "convertMessageType n tm r1 c u = Some (r2, c2, Inl e)"
  shows "convertField n tm r c g = Some (r2, c2, Inl e)"
proof -
  have again: "resolve r1 g1 = (r1, Inr g1)"
    using resolve_result(1)[OF assms(1)] by simp
  from assms(2,3) show ?thesis
    by (simp add: convertField_resolved[OF assms(1)] convertNonRepeatedField_resolved[OF again])
qed

lemma generateGlueSchema_abort:
  assumes "loadSync protoFile = Inr r0" and "root_resolveAll r0 = (r, Inr ())"
    and "map_of (types r) t \<noteq> None"
    and "convertMessageType n tm r c t = Some (r2, c2, Inl e)"
  shows "generateGlueSchema n tm loadSync c protoFile (Some t) = Some (c2, Inl e)"
  using assms(3,4)
  by (auto simp: generateGlueSchema_resolved(1)[where loadSync=loadSync
        and protoFile=protoFile, OF assms(1,2)])

lemma convertFields_unsupported:
  assumes "resolved f" and "resolvedType f = None" and "\<not> assertKey tm (type f)"
  shows "convertFields n tm r c (before @ f # rest) =
     (case convertFields n tm r c before of
        None \<Rightarrow> None
      | Some (r2, c2, Inl e) \<Rightarrow> Some (r2, c2, Inl e)
      | Some (r2, c2, Inr cols) \<Rightarrow> Some (r2, c2, Inl (Unsupported_field_type (type f))))"
proof (induction before arbitrary: r c)
  case Nil
  have "resolve r f = (r, Inr f)" using assms(1) by simp
  from convertField_unsupported[where tm=tm, OF this assms(2,3)] show ?case by simp
next
  case (Cons g before)
  show ?case
  proof (cases "convertField n tm r c g")
    case None
    then show ?thesis by simp
  next
    case (Some y)
    obtain r1 c1 z where y: "y = (r1, c1, z)" by (cases y)
    show ?thesis
    proof (cases z)
      case (Inl e)
      with Some y show ?thesis by simp
    next
      case (Inr col)
      with Some y show ?thesis
        by (simp add: Cons.IH proceed_def split: option.splits sum.splits)
    qed
  qed
qed

text \<open>
  A call that returns columns has met no unsupported tag, at any depth: the type is
  supported below, and so is every type that the call has added to the cache.
\<close>

lemma supported_belowI:
  assumes own: "\<And>f. f \<in> set (fields_of r t) \<Longrightarrow> resolvedType f = None \<Longrightarrow> assertKey tm (type f)"
    and nested: "\<And>f u. f \<in> set (fields_of r t) \<Longrightarrow> resolvedType f = Some (Type u) \<Longrightarrow>
                   supported_below tm r u"
  shows "supported_below tm r t"
  unfolding supported_below_def
proof (intro allI impI)
  fix u
  assume "(t, u) \<in> (containment r)\<^sup>*"
  then show "supported tm r u"
  proof (cases rule: converse_rtranclE)
    case base
    with own show ?thesis by (simp add: supported_def list_all_iff)
  next
    case (step t1)
    from step(1) obtain f where "f \<in> set (fields_of r t)" and "resolvedType f = Some (Type t1)"
      by (auto simp: containment_def references_def list_ex_iff)
    from nested[OF this] step(2) show ?thesis by (simp add: supported_below_def)
  qed
qed

lemma convertNonRepeatedField_supported_step:
  assumes r: "resolved_root r" and f: "resolved f" and inv: "cache_supported tm r c"
    and mt: "\<And>c t r' c' res. cache_supported tm r c \<Longrightarrow>
               convertMessageType n tm r c t = Some (r', c', res) \<Longrightarrow>
               cache_supported tm r c' \<and> (\<forall>cols. res = Inr cols \<longrightarrow> supported_below tm r t)"
    and run: "convertNonRepeatedField n tm r c f = Some (r', c', res)"
  shows "cache_supported tm r c' \<and>
         (\<forall>col. res = Inr col \<longrightarrow>
            (resolvedType f = None \<longrightarrow> assertKey tm (type f)) \<and>
            (\<forall>u. resolvedType f = Some (Type u) \<longrightarrow> supported_below tm r u))"
proof -
  have res: "resolve r f = (r, Inr f)" using f by simp
  show ?thesis
  proof (cases "resolvedType f")
    case None
    with run inv show ?thesis
      by (auto simp: convertNonRepeatedField_resolved[OF res] split: if_splits)
  next
    case (Some a)
    show ?thesis
    proof (cases a)
      case (Enum e)
      with Some run inv show ?thesis
        by (auto simp: convertNonRepeatedField_resolved[OF res])
    next
      case (Type t)
      with Some run have
        "proceed (convertMessageType n tm r c t) (\<lambda>r2 c2 columns.
           Some (r2, c2, Inr (Column (name f) (struct columns)))) = Some (r', c', res)"
        by (simp add: convertNonRepeatedField_resolved[OF res])
      then show ?thesis
      proof (cases rule: proceed_cases)
        case (threw s c1 e)
        with mt[OF inv threw(1)] show ?thesis by simp
      next
        case (returned s c1 columns)
        with mt[OF inv returned(1)] Some Type show ?thesis by auto
      qed
    qed
  qed
qed

lemma convertField_supported_step:
  assumes r: "resolved_root r" and f: "resolved f" and inv: "cache_supported tm r c"
    and mt: "\<And>c t r' c' res. cache_supported tm r c \<Longrightarrow>
               convertMessageType n tm r c t = Some (r', c', res) \<Longrightarrow>
               cache_supported tm r c' \<and> (\<forall>cols. res = Inr cols \<longrightarrow> supported_below tm r t)"
    and run: "convertField n tm r c f = Some (r', c', res)"
  shows "cache_supported tm r c' \<and>
         (\<forall>col. res = Inr col \<longrightarrow>
            (resolvedType f = None \<longrightarrow> assertKey tm (type f)) \<and>
            (\<forall>u. resolvedType f = Some (Type u) \<longrightarrow> supported_below tm r u))"
proof -
  have res: "resolve r f = (r, Inr f)" using f by simp
  have step: "cache_supported tm r c' \<and>
         (\<forall>col. res = Inr col \<longrightarrow>
            (resolvedType f = None \<longrightarrow> assertKey tm (type f)) \<and>
            (\<forall>u. resolvedType f = Some (Type u) \<longrightarrow> supported_below tm r u))"
    if "convertNonRepeatedField n tm r c f = Some (r', c', res)" for r' c' res
    using r f inv mt that by (rule convertNonRepeatedField_supported_step)
  show ?thesis
  proof (cases "repeated f")
    case False
    with run have "convertNonRepeatedField n tm r c f = Some (r', c', res)"
      by (simp add: convertField_resolved[OF res])
    from step[OF this] show ?thesis .
  next
    case True
    with run have
      "proceed (convertNonRepeatedField n tm r c f) (\<lambda>r2 c2 col.
         Some (r2, c2, Inr (Column (name f) (array (column_type col))))) = Some (r', c', res)"
      by (simp add: convertField_resolved[OF res])
    then show ?thesis
    proof (cases rule: proceed_cases)
      case (threw s c1 e)
      with step[OF threw(1)] show ?thesis by simp
    next
      case (returned s c1 col)
      with step[OF returned(1)] show ?thesis by simp
    qed
  qed
qed

lemma convertFields_supported_step:
  assumes r: "resolved_root r"
    and mt: "\<And>c t r' c' res. cache_supported tm r c \<Longrightarrow>
               convertMessageType n tm r c t = Some (r', c', res) \<Longrightarrow>
               cache_supported tm r c' \<and> (\<forall>cols. res = Inr cols \<longrightarrow> supported_below tm r t)"
  shows "(\<And>f. f \<in> set fs \<Longrightarrow> resolved f) \<Longrightarrow> cache_supported tm r c \<Longrightarrow>
         convertFields n tm r c fs = Some (r', c', res) \<Longrightarrow>
         cache_supported tm r c' \<and>
         (\<forall>cols. res = Inr cols \<longrightarrow>
            (\<forall>f\<in>set fs. (resolvedType f = None \<longrightarrow> assertKey tm (type f)) \<and>
               (\<forall>u. resolvedType f = Some (Type u) \<longrightarrow> supported_below tm r u)))"
proof (induction fs arbitrary: c r' c' res)
  case Nil
  then show ?case by auto
next
  case (Cons f fs)
  have f: "resolved f" using Cons.prems(1) by simp
  have fs: "\<And>g. g \<in> set fs \<Longrightarrow> resolved g" using Cons.prems(1) by simp
  have step: "cache_supported tm r c' \<and>
         (\<forall>col. res = Inr col \<longrightarrow>
            (resolvedType f = None \<longrightarrow> assertKey tm (type f)) \<and>
            (\<forall>u. resolvedType f = Some (Type u) \<longrightarrow> supported_below tm r u))"
    if "convertField n tm r c f = Some (r', c', res)" for r' c' res
    using r f Cons.prems(2) mt that by (rule convertField_supported_step)
  from Cons.prems(3) have
    "proceed (convertField n tm r c f) (\<lambda>r1 c1 col.
       proceed (convertFields n tm r1 c1 fs) (\<lambda>r2 c2 cols.
       Some (r2, c2, Inr (col # cols)))) = Some (r', c', res)"
    by simp
  then show ?case
  proof (cases rule: proceed_cases)
    case (threw s c1 e)
    with step[OF threw(1)] show ?thesis by simp
  next
    case first: (returned s c1 col)
    from convertField_frame[OF r f first(1)] have s: "s = r" .
    from step[OF first(1)] have inv1: "cache_supported tm r c1"
      and here: "(resolvedType f = None \<longrightarrow> assertKey tm (type f)) \<and>
                 (\<forall>u. resolvedType f = Some (Type u) \<longrightarrow> supported_below tm r u)"
      by simp_all
    from first(2) show ?thesis
    proof (cases rule: proceed_cases)
      case (threw s2 c2 e)
      with Cons.IH[OF fs inv1 threw(1)[unfolded s]] show ?thesis by simp
    next
      case (returned s2 c2 cols)
      with Cons.IH[OF fs inv1 returned(1)[unfolded s]] here show ?thesis by simp
    qed
  qed
qed

lemma convertMessageType_supported:
  assumes r: "resolved_root r"
  shows "cache_supported tm r c \<Longrightarrow> convertMessageType n tm r c t = Some (r', c', res) \<Longrightarrow>
         cache_supported tm r c' \<and> (\<forall>cols. res = Inr cols \<longrightarrow> supported_below tm r t)"
proof (induction n arbitrary: c t r' c' res)
  case 0
  then show ?case
    by (auto simp: convertMessageType.simps cache_supported_def split: option.splits)
next
  case (Suc n)
  show ?case
  proof (cases "c t")
    case (Some cols)
    with Suc.prems show ?thesis
      by (auto simp: convertMessageType_cached cache_supported_def)
  next
    case None
    note fs = fields_of_resolved[OF r]
    have loop: "cache_supported tm r c2 \<and>
         (\<forall>cols. res = Inr cols \<longrightarrow>
            (\<forall>f\<in>set (fields_of r t). (resolvedType f = None \<longrightarrow> assertKey tm (type f)) \<and>
               (\<forall>u. resolvedType f = Some (Type u) \<longrightarrow> supported_below tm r u)))"
      if "convertFields n tm r c (fields_of r t) = Some (r2, c2, res)" for r2 c2 res
      using r Suc.IH fs Suc.prems(1) that by (rule convertFields_supported_step)
    from Suc.prems(2) None show ?thesis
    proof (cases rule: convertMessageType_Suc_cases)
      case (cycle r1 e)
      with Suc.prems(1) show ?thesis by simp
    next
      case (threw r1 r2 c2 e)
      from detect_frame[OF r threw(1)] have "r1 = r" .
      with loop[OF threw(2)[unfolded \<open>r1 = r\<close>]] threw(3) show ?thesis by simp
    next
      case (returned r1 r2 c2 columns)
      from detect_frame[OF r returned(1)] have "r1 = r" .
      with loop[OF returned(2)[unfolded \<open>r1 = r\<close>]]
      have inv2: "cache_supported tm r c2"
        and all: "\<forall>f\<in>set (fields_of r t). (resolvedType f = None \<longrightarrow> assertKey tm (type f)) \<and>
               (\<forall>u. resolvedType f = Some (Type u) \<longrightarrow> supported_below tm r u)"
        by simp_all
      have below: "supported_below tm r t"
      proof (rule supported_belowI)
        fix f
        assume "f \<in> set (fields_of r t)" and "resolvedType f = None"
        with all show "assertKey tm (type f)" by blast
      next
        fix f u
        assume "f \<in> set (fields_of r t)" and "resolvedType f = Some (Type u)"
        with all show "supported_below tm r u" by blast
      qed
      have "cache_supported tm r (c2(t \<mapsto> columns))"
        unfolding cache_supported_def
      proof (intro allI impI)
        fix t' cols
        assume hit: "(c2(t \<mapsto> columns)) t' = Some cols"
        show "supported_below tm r t'"
        proof (cases "t' = t")
          case True
          with below show ?thesis by simp
        next
          case False
          with hit have "c2 t' = Some cols" by simp
          with inv2 show ?thesis unfolding cache_supported_def by blast
        qed
      qed
      moreover from returned(3) have "c' = c2(t \<mapsto> columns)" by simp
      ultimately show ?thesis using below by blast
    qed
  qed
qed

lemma cache_supported_empty: "cache_supported tm r Map.empty"
  by (simp add: cache_supported_def)

text \<open>
  So a field of an unsupported tag, in the requested type or in any type that it reaches
  through fields typed as messages, keeps \<open>convertMessageType\<close> and
  \<open>generateGlueSchema\<close> from returning columns, on a new converter and on every
  converter whose cache is supported.
\<close>

lemma nested_unsupported_never:
  assumes "resolved_root r" and "cache_supported tm r c"
    and "(t, u) \<in> (containment r)\<^sup>*" and "f \<in> set (fields_of r u)"
    and "resolvedType f = None" and "\<not> assertKey tm (type f)"
  shows "convertMessageType n tm r c t \<noteq> Some (r', c', Inr columns)"
proof
  assume "convertMessageType n tm r c t = Some (r', c', Inr columns)"
  from convertMessageType_supported[OF assms(1,2) this] have "supported_below tm r t"
    by simp
  with assms(3) have "supported tm r u" by (simp add: supported_below_def)
  with assms(4,5,6) show False by (auto simp: supported_def list_all_iff)
qed

lemma generateGlueSchema_nested_unsupported:
  assumes "loadSync protoFile = Inr r0" and "root_resolveAll r0 = (r, Inr ())"
    and "resolved_root r" and "cache_supported tm r c"
    and "(t, u) \<in> (containment r)\<^sup>*" and "f \<in> set (fields_of r u)"
    and "resolvedType f = None" and "\<not> assertKey tm (type f)"
  shows "generateGlueSchema n tm loadSync c protoFile (Some t) \<noteq> Some (c', Inr columns)"
proof -
  have "convertMessageType n tm r c t \<noteq> Some (r', c', Inr columns)" for r'
    using assms(3-8) by (rule nested_unsupported_never)
  then show ?thesis
    by (auto simp: generateGlueSchema_resolved(1)[where loadSync=loadSync
          and protoFile=protoFile, OF assms(1,2)] split: option.splits)
qed

lemma unsupported_root_resolved: "resolved_root unsupported_root"
  by (simp add: resolved_root_def unsupported_root_def fld_def)

lemma uint32_unsupported: "\<not> assertKey DEFAULT_TYPE_MAPPING ''uint32''"
  by (simp add: assertKey_def DEFAULT_TYPE_MAPPING_def Object_prototype_def dom_def)

lemma unsupported_root_run:
  "convertMessageType (Suc (Suc n)) DEFAULT_TYPE_MAPPING unsupported_root Map.empty ''.M'' =
     Some (unsupported_root, Map.empty, Inl (Unsupported_field_type ''uint32''))"
proof -
  have fs: "fields_of unsupported_root ''.M'' =
      [fld ''.M'' ''a'' ''string'' False None, fld ''.M'' ''b'' ''uint32'' False None,
       fld ''.M'' ''c'' ''string'' False None]"
    by (simp add: fields_of_def unsupported_root_def)
  have "detectCircularReference (Suc n) unsupported_root ''.M'' ''.M'' =
      Some (unsupported_root, Inr ())"
    by (simp add: detect_Suc_resolved[OF unsupported_root_resolved] references_def fs fld_def)
  then show ?thesis
    by (simp add: convertMessageType_Suc fs convertField_fld DEFAULT_TYPE_MAPPING_entries
          uint32_unsupported)
qed

text \<open>The two examples: the unsupported tag in the requested type, and one level down.\<close>

lemma unsupported_root_aborts:
  "generateGlueSchema 2 DEFAULT_TYPE_MAPPING (\<lambda>_. Inr unsupported_root) Map.empty
     ''m.proto'' (Some ''.M'') =
     Some (Map.empty, Inl (Unsupported_field_type ''uint32''))"
proof -
  have l: "(\<lambda>_. Inr unsupported_root) ''m.proto'' = Inr unsupported_root" by simp
  show ?thesis
    using unsupported_root_run[of 0]
    by (simp add: generateGlueSchema_resolved(1)[where loadSync="\<lambda>_. Inr unsupported_root"
          and protoFile="''m.proto''", OF l root_resolveAll_resolved[OF unsupported_root_resolved]]
          numeral_2_eq_2)
       (simp add: unsupported_root_def)
qed

lemma nested_unsupported_root_resolved: "resolved_root nested_unsupported_root"
  by (simp add: resolved_root_def nested_unsupported_root_def fld_def)

lemma nested_unsupported_root_aborts:
  "generateGlueSchema 3 DEFAULT_TYPE_MAPPING (\<lambda>_. Inr nested_unsupported_root) Map.empty
     ''nested.proto'' (Some ''.Outer'') =
     Some (Map.empty, Inl (Unsupported_field_type ''uint32''))"
proof -
  note r = nested_unsupported_root_resolved
  have outer: "fields_of nested_unsupported_root ''.Outer'' =
      [fld ''.Outer'' ''inner'' ''Inner'' False (Some (Type ''.Inner''))]"
    and inner: "fields_of nested_unsupported_root ''.Inner'' =
      [fld ''.Inner'' ''n'' ''uint32'' False None]"
    by (simp_all add: fields_of_def nested_unsupported_root_def)
  have d0: "detectCircularReference (Suc n) nested_unsupported_root ''.Inner'' ref =
      Some (nested_unsupported_root, Inr ())" for n ref
    by (simp add: detect_Suc_resolved[OF r] references_def inner fld_def)
  have d2: "detectCircularReference (Suc (Suc n)) nested_unsupported_root ''.Outer'' ''.Outer'' =
      Some (nested_unsupported_root, Inr ())" for n
    by (simp add: detect_Suc_resolved[OF r, of "Suc n"] references_def outer fld_def d0)
  have i: "convertMessageType (Suc (Suc n)) DEFAULT_TYPE_MAPPING nested_unsupported_root
      Map.empty ''.Inner'' =
      Some (nested_unsupported_root, Map.empty, Inl (Unsupported_field_type ''uint32''))" for n
    by (simp add: convertMessageType_Suc d0 inner convertField_fld uint32_unsupported)
  have o: "convertMessageType (Suc (Suc (Suc 0))) DEFAULT_TYPE_MAPPING nested_unsupported_root
      Map.empty ''.Outer'' =
      Some (nested_unsupported_root, Map.empty, Inl (Unsupported_field_type ''uint32''))"
    by (simp add: convertMessageType_Suc d2 outer convertField_fld i)
  have l: "(\<lambda>_. Inr nested_unsupported_root) ''nested.proto'' = Inr nested_unsupported_root"
    by simp
  show ?thesis
    using o
    by (simp add: generateGlueSchema_resolved(1)[where loadSync="\<lambda>_. Inr nested_unsupported_root"
          and protoFile="''nested.proto''", OF l root_resolveAll_resolved[OF r]]
          numeral_3_eq_3)
       (simp add: nested_unsupported_root_def)
qed

lemma inherited_root_resolved: "resolved_root inherited_root"
  by (simp add: resolved_root_def inherited_root_def fld_def)

lemma toString_inherited:
  "DEFAULT_TYPE_MAPPING ''toString'' = None"
  "assertKey DEFAULT_TYPE_MAPPING ''toString''"
  "property DEFAULT_TYPE_MAPPING ''toString'' = prototype_member ''toString''"
  by (simp_all add: assertKey_def property_def DEFAULT_TYPE_MAPPING_def Object_prototype_def)

lemma inherited_root_run:
  "convertMessageType (Suc (Suc n)) DEFAULT_TYPE_MAPPING inherited_root Map.empty ''.M'' =
     Some (inherited_root, [''.M'' \<mapsto> inherited_columns], Inr inherited_columns)"
proof -
  have fs: "fields_of inherited_root ''.M'' =
      [fld ''.M'' ''a'' ''string'' False None, fld ''.M'' ''b'' ''toString'' False None,
       fld ''.M'' ''c'' ''string'' False None]"
    by (simp add: fields_of_def inherited_root_def)
  have "detectCircularReference (Suc n) inherited_root ''.M'' ''.M'' =
      Some (inherited_root, Inr ())"
    by (simp add: detect_Suc_resolved[OF inherited_root_resolved] references_def fs fld_def)
  then show ?thesis
    by (simp add: convertMessageType_Suc fs convertField_fld DEFAULT_TYPE_MAPPING_entries
          toString_inherited inherited_columns_def)
qed

text \<open>
  C8. The tag \<^verbatim>\<open>toString\<close> has no entry in the default mapping, and a field of that
  tag that resolves to no message and no enum is not rejected. \<^verbatim>\<open>assertKey\<close> tests the
  tag with \<^verbatim>\<open>in\<close>, which holds of the keys that the mapping inherits from
  \<^verbatim>\<open>Object.prototype\<close>: \<open>convertField\<close> returns a column whose type is the function
  \<^verbatim>\<open>Object.prototype.toString\<close>, which is no Glue type, and \<open>generateGlueSchema\<close>
  returns a schema that holds that column, where the repository's README and its test of
  an unsupported type have the call throw \<^verbatim>\<open>Unsupported field type\<close>.
\<close>

theorem inherited_key_is_converted:
  "DEFAULT_TYPE_MAPPING ''toString'' = None
   \<and> convertField 0 DEFAULT_TYPE_MAPPING inherited_root Map.empty
       (fld ''.M'' ''b'' ''toString'' False None) =
     Some (inherited_root, Map.empty, Inr (Column ''b'' (prototype_member ''toString'')))
   \<and> generateGlueSchema 2 DEFAULT_TYPE_MAPPING (\<lambda>_. Inr inherited_root) Map.empty
       ''m.proto'' (Some ''.M'') =
     Some ([''.M'' \<mapsto> inherited_columns], Inr inherited_columns)"
proof -
  have 1: "convertField 0 DEFAULT_TYPE_MAPPING inherited_root Map.empty
       (fld ''.M'' ''b'' ''toString'' False None) =
     Some (inherited_root, Map.empty, Inr (Column ''b'' (prototype_member ''toString'')))"
    by (simp add: convertField_fld toString_inherited)
  have l: "(\<lambda>_. Inr inherited_root) ''m.proto'' = Inr inherited_root" by simp
  have 2: "generateGlueSchema 2 DEFAULT_TYPE_MAPPING (\<lambda>_. Inr inherited_root) Map.empty
       ''m.proto'' (Some ''.M'') = Some ([''.M'' \<mapsto> inherited_columns], Inr inherited_columns)"
    using inherited_root_run[of 0]
    by (simp add: generateGlueSchema_resolved(1)[where loadSync="\<lambda>_. Inr inherited_root"
          and protoFile="''m.proto''", OF l root_resolveAll_resolved[OF inherited_root_resolved]]
          numeral_2_eq_2)
       (simp add: inherited_root_def)
  from 1 2 toString_inherited(1) show ?thesis by blast
qed

lemma detect_nested_mono_step:
  assumes "resolved_root r"
    and step: "\<And>t x. detectCircularReference n r t ref = Some x \<Longrightarrow>
                 detectCircularReference (Suc n) r t ref = Some x"
  shows "detect_nested n r fs ref = Some x \<Longrightarrow> detect_nested (Suc n) r fs ref = Some x"
proof (induction fs)
  case Nil
  then show ?case by simp
next
  case (Cons f fs)
  show ?case
  proof (cases "resolvedType f")
    case None
    with Cons show ?thesis by simp
  next
    case (Some a)
    show ?thesis
    proof (cases a)
      case (Enum e)
      with Some Cons show ?thesis by simp
    next
      case (Type t)
      show ?thesis
      proof (cases "detectCircularReference n r t ref")
        case None
        with Some Type Cons.prems show ?thesis by simp
      next
        case res: (Some y)
        obtain r1 z where y: "y = (r1, z)" by (cases y)
        with res detect_frame[OF assms(1)] have "r1 = r" by blast
        with res y have low: "detectCircularReference n r t ref = Some (r, z)" by simp
        from step[OF low] have up: "detectCircularReference (Suc n) r t ref = Some (r, z)" .
        show ?thesis
        proof (cases z)
          case (Inl e)
          from Cons.prems low Inl Some Type have "x = (r, Inl e)"
            by (simp add: detect_nested_Cons_resolved[OF assms(1)] del: detect_nested.simps)
          with up Inl Some Type show ?thesis
            by (simp add: detect_nested_Cons_resolved[OF assms(1)] del: detect_nested.simps)
        next
          case (Inr u)
          from Cons.prems low Inr Some Type have "detect_nested n r fs ref = Some x"
            by (simp add: detect_nested_Cons_resolved[OF assms(1)] del: detect_nested.simps)
          from Cons.IH[OF this] up Inr Some Type show ?thesis
            by (simp add: detect_nested_Cons_resolved[OF assms(1)] del: detect_nested.simps)
        qed
      qed
    qed
  qed
qed

lemma detect_mono_Suc:
  assumes "resolved_root r"
  shows "detectCircularReference n r t ref = Some x \<Longrightarrow>
         detectCircularReference (Suc n) r t ref = Some x"
proof (induction n arbitrary: t x)
  case 0
  then show ?case by simp
next
  case (Suc n)
  from Suc.prems show ?case
    by (auto simp: detect_Suc_resolved[OF assms] split: if_splits
             intro: detect_nested_mono_step[OF assms Suc.IH])
qed

lemma detect_mono:
  assumes "resolved_root r" and "detectCircularReference n r t ref = Some x" and "n \<le> m"
  shows "detectCircularReference m r t ref = Some x"
  using assms(3,2)
  by (induction rule: dec_induct) (auto intro: detect_mono_Suc[OF assms(1)])

lemma detect_nested_mono:
  assumes "resolved_root r" and "detect_nested n r fs ref = Some x" and "n \<le> m"
  shows "detect_nested m r fs ref = Some x"
  using assms(3,2)
  by (induction rule: dec_induct)
     (auto intro: detect_nested_mono_step[OF assms(1) detect_mono_Suc[OF assms(1)]])

lemma detect_nested_returns:
  assumes "resolved_root r"
    and each: "\<And>f t. f \<in> set fs \<Longrightarrow> resolvedType f = Some (Type t) \<Longrightarrow>
                 \<exists>n y. detectCircularReference n r t ref = Some y"
  shows "\<exists>n y. detect_nested n r fs ref = Some y"
  using each
proof (induction fs)
  case Nil
  then show ?case by simp
next
  case (Cons f fs)
  have "\<exists>n y. detect_nested n r fs ref = Some y"
    by (rule Cons.IH) (rule Cons.prems, simp_all)
  then obtain n1 y1 where n1: "detect_nested n1 r fs ref = Some y1" by blast
  show ?case
  proof (cases "resolvedType f")
    case None
    with n1 show ?thesis by (auto intro: exI[of _ n1])
  next
    case (Some a)
    show ?thesis
    proof (cases a)
      case (Enum e)
      with Some n1 show ?thesis by (auto intro: exI[of _ n1])
    next
      case (Type t)
      with Some Cons.prems[of f t] obtain n2 y2
        where n2: "detectCircularReference n2 r t ref = Some y2" by auto
      let ?n = "max n1 n2"
      from detect_nested_mono[OF assms(1) n1, of ?n]
      have a: "detect_nested ?n r fs ref = Some y1" by simp
      from detect_mono[OF assms(1) n2, of ?n]
      have b: "detectCircularReference ?n r t ref = Some y2" by simp
      obtain r2 z where y2: "y2 = (r2, z)" by (cases y2)
      have "\<exists>y. detect_nested ?n r (f # fs) ref = Some y"
        using a b y2 Some Type
        by (cases z) (simp_all add: detect_nested_Cons_resolved[OF assms(1)]
                        del: detect_nested.simps)
      then show ?thesis by blast
    qed
  qed
qed

lemma detect_returns:
  assumes "resolved_root r"
    and "wf {(t', t). (origin, t) \<in> (walk r ref)\<^sup>* \<and> (t, t') \<in> walk r ref}"
  shows "(origin, t) \<in> (walk r ref)\<^sup>* \<Longrightarrow>
         \<exists>n y. detectCircularReference n r t ref = Some y"
  using assms(2)
proof (induction t rule: wf_induct_rule)
  case (less t)
  show ?case
  proof (cases "references r t ref")
    case True
    then have "detectCircularReference (Suc 0) r t ref = Some (r, Inl (Circular_reference ref))"
      by (simp add: detect_Suc_resolved[OF assms(1)])
    then show ?thesis by blast
  next
    case False
    have kids: "\<exists>n y. detectCircularReference n r t' ref = Some y"
      if "f \<in> set (fields_of r t)" and "resolvedType f = Some (Type t')" for f t'
    proof -
      from that have "references r t t'"
        by (auto simp: references_def list_ex_iff)
      with False have edge: "(t, t') \<in> walk r ref" by (simp add: walk_def)
      with less.prems have "(origin, t') \<in> (walk r ref)\<^sup>*"
        by (auto intro: rtrancl_into_rtrancl)
      then show ?thesis
        using less.IH[of t'] edge less.prems by simp
    qed
    have "\<exists>n y. detect_nested n r (fields_of r t) ref = Some y"
      by (rule detect_nested_returns[OF assms(1)]) (rule kids)
    then obtain n y where "detect_nested n r (fields_of r t) ref = Some y" by blast
    with False have "detectCircularReference (Suc n) r t ref = Some y"
      by (simp add: detect_Suc_resolved[OF assms(1)])
    then show ?thesis by blast
  qed
qed

lemma detect_finds_cycle:
  assumes "resolved_root r"
    and "(origin, origin) \<in> (containment r)\<^sup>+"
    and "detectCircularReference n r origin origin = Some y"
  shows "y = (r, Inl (Circular_reference origin))"
proof -
  obtain r1 z where y: "y = (r1, z)" by (cases y)
  with assms(3) detect_frame[OF assms(1)] have r1: "r1 = r" by blast
  from assms(2) obtain v where v: "(origin, v) \<in> (containment r)\<^sup>*"
    and last: "(v, origin) \<in> containment r"
    by (auto elim: tranclE intro: trancl_into_rtrancl)
  show ?thesis
  proof (cases z)
    case (Inl e)
    with assms(3) y detect_error[OF assms(1)] have "e = Circular_reference origin" by blast
    with y r1 Inl show ?thesis by simp
  next
    case (Inr u)
    with assms(3) y have "detectCircularReference n r origin origin = Some (r1, Inr u)" by simp
    from detect_pass_no_back_edge[OF assms(1) this v] last show ?thesis
      by (simp add: containment_def)
  qed
qed

text \<open>
  C1. On a resolved root and for a type that the cache does not hold yet: when the type
  has a field typed as itself, every call with a bound of at least 2 fails with
  \<^verbatim>\<open>Circular reference detected\<close> naming that type; and when the type is reachable from
  itself through message-typed fields, and the walk of the detection from it (which goes
  into the fields of a type only when none of them is typed as the origin) has no
  infinite path, every call with a large enough bound fails with that error naming the
  origin. The failing call leaves the cache and the root as they were and returns no
  column.
\<close>

theorem circular_reference_detected:
  assumes "resolved_root r" and "c origin = None"
  shows "(references r origin origin \<longrightarrow>
           (\<forall>n\<ge>2. convertMessageType n tm r c origin =
                    Some (r, c, Inl (Circular_reference origin))))
       \<and> ((origin, origin) \<in> (containment r)\<^sup>+ \<and>
          wf {(t', t). (origin, t) \<in> (walk r origin)\<^sup>* \<and> (t, t') \<in> walk r origin} \<longrightarrow>
           (\<exists>N. \<forall>n\<ge>N. convertMessageType n tm r c origin =
                    Some (r, c, Inl (Circular_reference origin))))"
proof (intro conjI impI allI)
  fix n :: nat
  assume self: "references r origin origin" and "2 \<le> n"
  then obtain m where n: "n = Suc (Suc m)" by (auto simp: numeral_2_eq_2 le_Suc_eq dest: Suc_le_D)
  from self have "detectCircularReference (Suc m) r origin origin =
      Some (r, Inl (Circular_reference origin))"
    by (simp add: detect_Suc_resolved[OF assms(1)])
  with n assms(2) show "convertMessageType n tm r c origin =
      Some (r, c, Inl (Circular_reference origin))"
    by (simp add: convertMessageType_Suc)
next
  assume a: "(origin, origin) \<in> (containment r)\<^sup>+ \<and>
          wf {(t', t). (origin, t) \<in> (walk r origin)\<^sup>* \<and> (t, t') \<in> walk r origin}"
  then have "\<exists>n y. detectCircularReference n r origin origin = Some y"
    by (intro detect_returns[OF assms(1), where origin=origin]) simp_all
  then obtain n0 y where n0: "detectCircularReference n0 r origin origin = Some y" by blast
  with a detect_finds_cycle[OF assms(1)]
  have y: "y = (r, Inl (Circular_reference origin))" by blast
  have "convertMessageType n tm r c origin = Some (r, c, Inl (Circular_reference origin))"
    if "Suc n0 \<le> n" for n
  proof -
    from that obtain m where n: "n = Suc m" and "n0 \<le> m" by (auto dest: Suc_le_D)
    with detect_mono[OF assms(1) n0] y
    have "detectCircularReference m r origin origin = Some (r, Inl (Circular_reference origin))"
      by simp
    with n assms(2) show ?thesis by (simp add: convertMessageType_Suc)
  qed
  then show "\<exists>N. \<forall>n\<ge>N. convertMessageType n tm r c origin =
                    Some (r, c, Inl (Circular_reference origin))"
    by blast
qed

lemma self_root_resolved: "resolved_root self_root"
  by (simp add: resolved_root_def self_root_def fld_def)

lemma cyc_root_resolved: "resolved_root cyc_root"
  by (simp add: resolved_root_def cyc_root_def fld_def)

lemma loop_root_resolved: "resolved_root loop_root"
  by (simp add: resolved_root_def loop_root_def fld_def)

lemma self_root_references: "references self_root ''.CircularMessage'' ''.CircularMessage''"
  by (simp add: references_def fields_of_def self_root_def fld_def)

lemma cyc_root_references:
  "references cyc_root t t' \<longleftrightarrow>
     t = ''.MessageA'' \<and> t' = ''.MessageB'' \<or> t = ''.MessageB'' \<and> t' = ''.MessageA''"
  by (auto simp: references_def fields_of_def cyc_root_def fld_def split: if_splits)

lemma cyc_root_walk: "walk cyc_root ''.MessageA'' = {(''.MessageA'', ''.MessageB'')}"
  by (auto simp: walk_def cyc_root_references)

lemma cyc_root_wf:
  "wf {(t', t). (''.MessageA'', t) \<in> (walk cyc_root ''.MessageA'')\<^sup>* \<and>
                (t, t') \<in> walk cyc_root ''.MessageA''}"
proof (rule wf_subset)
  show "wf {(''.MessageB'', ''.MessageA'')}" by simp
  show "{(t', t). (''.MessageA'', t) \<in> (walk cyc_root ''.MessageA'')\<^sup>* \<and>
                (t, t') \<in> walk cyc_root ''.MessageA''} \<subseteq> {(''.MessageB'', ''.MessageA'')}"
    by (auto simp: cyc_root_walk)
qed

lemma cyc_root_cycle: "(''.MessageA'', ''.MessageA'') \<in> (containment cyc_root)\<^sup>+"
proof -
  have "(''.MessageA'', ''.MessageB'') \<in> containment cyc_root"
    and "(''.MessageB'', ''.MessageA'') \<in> containment cyc_root"
    by (simp_all add: containment_def cyc_root_references)
  then show ?thesis by (rule trancl_into_trancl[OF r_into_trancl])
qed

theorem circular_reference_detected_witness:
  "resolved_root cyc_root
   \<and> (''.MessageA'', ''.MessageA'') \<in> (containment cyc_root)\<^sup>+
   \<and> (\<exists>N. \<forall>n\<ge>N. convertMessageType n DEFAULT_TYPE_MAPPING cyc_root Map.empty ''.MessageA'' =
         Some (cyc_root, Map.empty, Inl (Circular_reference ''.MessageA'')))
   \<and> convertMessageType 2 DEFAULT_TYPE_MAPPING self_root Map.empty ''.CircularMessage'' =
         Some (self_root, Map.empty, Inl (Circular_reference ''.CircularMessage''))"
proof -
  have e: "(Map.empty :: cache) t = None" for t by simp
  note A = circular_reference_detected[OF cyc_root_resolved e, where tm=DEFAULT_TYPE_MAPPING]
  note S = circular_reference_detected[OF self_root_resolved e, where tm=DEFAULT_TYPE_MAPPING]
  have 1: "\<exists>N. \<forall>n\<ge>N. convertMessageType n DEFAULT_TYPE_MAPPING cyc_root Map.empty ''.MessageA'' =
         Some (cyc_root, Map.empty, Inl (Circular_reference ''.MessageA''))"
    by (rule mp[OF conjunct2[OF A] conjI[OF cyc_root_cycle cyc_root_wf]])
  have "\<forall>n\<ge>2. convertMessageType n DEFAULT_TYPE_MAPPING self_root Map.empty
         ''.CircularMessage'' =
         Some (self_root, Map.empty, Inl (Circular_reference ''.CircularMessage''))"
    by (rule mp[OF conjunct1[OF S] self_root_references])
  then have 2: "convertMessageType 2 DEFAULT_TYPE_MAPPING self_root Map.empty
         ''.CircularMessage'' =
         Some (self_root, Map.empty, Inl (Circular_reference ''.CircularMessage''))"
    by simp
  from cyc_root_resolved cyc_root_cycle 1 2 show ?thesis by blast
qed

text \<open>A converter that has converted \<^verbatim>\<open>message CircularMessage { string name = 1; }\<close>
  of another source holds columns under that name; asked for the self-referential type of
  the same name, it returns them and runs no detection.\<close>

theorem cached_type_skips_detection:
  "references self_root ''.CircularMessage'' ''.CircularMessage''
   \<and> convertMessageType 2 DEFAULT_TYPE_MAPPING self_root
       [''.CircularMessage'' \<mapsto> [Column ''name'' STRING]] ''.CircularMessage'' =
     Some (self_root, [''.CircularMessage'' \<mapsto> [Column ''name'' STRING]],
           Inr [Column ''name'' STRING])"
  by (simp add: self_root_references convertMessageType_cached)

lemma loop_root_detect:
  "detectCircularReference n loop_root ''.B'' ''.A'' = None \<and>
   detectCircularReference n loop_root ''.C'' ''.A'' = None"
proof (induction n)
  case 0
  then show ?case by simp
next
  case (Suc n)
  have "\<not> references loop_root ''.B'' ''.A''" and "\<not> references loop_root ''.C'' ''.A''"
    and "fields_of loop_root ''.B'' = [fld ''.B'' ''c'' ''C'' False (Some (Type ''.C''))]"
    and "fields_of loop_root ''.C'' = [fld ''.C'' ''b'' ''B'' False (Some (Type ''.B''))]"
    by (simp_all add: references_def fields_of_def loop_root_def fld_def)
  with Suc show ?case
    by (simp add: detect_Suc_resolved[OF loop_root_resolved] fld_def)
qed

lemma loop_root_detect_A: "detectCircularReference n loop_root ''.A'' ''.A'' = None"
proof (cases n)
  case 0
  then show ?thesis by simp
next
  case (Suc m)
  have "\<not> references loop_root ''.A'' ''.A''"
    and "fields_of loop_root ''.A'' = [fld ''.A'' ''b'' ''B'' False (Some (Type ''.B''))]"
    by (simp_all add: references_def fields_of_def loop_root_def fld_def)
  with Suc loop_root_detect[of m] show ?thesis
    by (simp add: detect_Suc_resolved[OF loop_root_resolved] fld_def)
qed

text \<open>
  C2. On the finite graph \<^verbatim>\<open>A\<close> \<open>\<rightarrow>\<close> \<^verbatim>\<open>B\<close> \<open>\<rightarrow>\<close> \<^verbatim>\<open>C\<close> \<open>\<rightarrow>\<close> \<^verbatim>\<open>B\<close>, whose cycle is
  reachable from \<^verbatim>\<open>A\<close> and does not pass through it, the conversion of \<^verbatim>\<open>A\<close> with an empty
  cache has no outcome at any bound of the recursion depth: the detection compares with
  \<^verbatim>\<open>A\<close> only and goes round \<^verbatim>\<open>B\<close> and \<^verbatim>\<open>C\<close> without end. It neither returns columns nor
  throws the circular-reference error.
\<close>

theorem detection_does_not_return:
  "references loop_root ''.B'' ''.C'' \<and> references loop_root ''.C'' ''.B''
   \<and> convertMessageType n tm loop_root Map.empty ''.A'' = None
   \<and> generateGlueSchema n tm (\<lambda>_. Inr loop_root) Map.empty protoFile (Some ''.A'') = None"
proof -
  have 1: "references loop_root ''.B'' ''.C'' \<and> references loop_root ''.C'' ''.B''"
    by (simp add: references_def fields_of_def loop_root_def fld_def)
  have 2: "convertMessageType n tm loop_root Map.empty ''.A'' = None"
    by (cases n) (simp_all add: convertMessageType_0 convertMessageType_Suc loop_root_detect_A)
  have l: "(\<lambda>_. Inr loop_root) protoFile = Inr loop_root" by simp
  have "map_of (types loop_root) ''.A'' \<noteq> None" by (simp add: loop_root_def)
  with 2 have 3: "generateGlueSchema n tm (\<lambda>_. Inr loop_root) Map.empty protoFile
      (Some ''.A'') = None"
    by (auto simp: generateGlueSchema_resolved(1)[where loadSync="\<lambda>_. Inr loop_root"
          and protoFile=protoFile, OF l root_resolveAll_resolved[OF loop_root_resolved]])
  from 1 2 3 show ?thesis by blast
qed

lemma behind_root_resolved: "resolved_root behind_root"
  by (simp add: resolved_root_def behind_root_def fld_def)

lemma behind_root_detect_B: "detectCircularReference n behind_root ''.B'' ''.A'' = None"
proof (induction n)
  case 0
  then show ?case by simp
next
  case (Suc n)
  have "\<not> references behind_root ''.B'' ''.A''"
    and "fields_of behind_root ''.B'' = [fld ''.B'' ''b'' ''B'' False (Some (Type ''.B''))]"
    by (simp_all add: references_def fields_of_def behind_root_def fld_def)
  with Suc show ?case
    by (simp add: detect_Suc_resolved[OF behind_root_resolved] fld_def)
qed

text \<open>The origin is on a cycle, and the detection does not reach the field that closes
  it: the walk enters \<^verbatim>\<open>B\<close> first and never leaves it.\<close>

lemma detection_loops_before_back_edge:
  "(''.A'', ''.A'') \<in> (containment behind_root)\<^sup>+"
  "convertMessageType n tm behind_root Map.empty ''.A'' = None"
proof -
  have "(''.A'', ''.C'') \<in> containment behind_root"
    and "(''.C'', ''.A'') \<in> containment behind_root"
    by (simp_all add: containment_def references_def fields_of_def behind_root_def fld_def)
  then show "(''.A'', ''.A'') \<in> (containment behind_root)\<^sup>+"
    by (rule trancl_into_trancl[OF r_into_trancl])
  have "detectCircularReference m behind_root ''.A'' ''.A'' = None" for m
  proof (cases m)
    case 0
    then show ?thesis by simp
  next
    case (Suc k)
    have "\<not> references behind_root ''.A'' ''.A''"
      and "fields_of behind_root ''.A'' =
             [fld ''.A'' ''b'' ''B'' False (Some (Type ''.B'')),
              fld ''.A'' ''c'' ''C'' False (Some (Type ''.C''))]"
      by (simp_all add: references_def fields_of_def behind_root_def fld_def)
    with Suc behind_root_detect_B[of k] show ?thesis
      by (simp add: detect_Suc_resolved[OF behind_root_resolved] fld_def)
  qed
  then show "convertMessageType n tm behind_root Map.empty ''.A'' = None"
    by (cases n) (simp_all add: convertMessageType_0 convertMessageType_Suc)
qed

lemma follows_names: "follows r cols fs \<Longrightarrow> map column_name cols = map name fs"
proof (induction cols arbitrary: fs)
  case Nil
  then show ?case by (cases fs) simp_all
next
  case (Cons col cols)
  then show ?case by (cases fs; cases col) simp_all
qed

lemma convertNonRepeatedField_follows_step:
  assumes r: "resolved_root r" and f: "resolved f" and inv: "cache_follows r c"
    and mt: "\<And>c t r' c' res. cache_follows r c \<Longrightarrow>
               convertMessageType n tm r c t = Some (r', c', res) \<Longrightarrow>
               cache_follows r c' \<and> (\<forall>cols. res = Inr cols \<longrightarrow> follows r cols (fields_of r t))"
    and run: "convertNonRepeatedField n tm r c f = Some (r', c', res)"
  shows "cache_follows r c' \<and>
         (\<forall>col. res = Inr col \<longrightarrow>
            column_name col = name f \<and>
            (\<forall>u. resolvedType f = Some (Type u) \<longrightarrow>
               (\<exists>sub. column_type col = struct sub \<and> follows r sub (fields_of r u))))"
proof -
  have res: "resolve r f = (r, Inr f)" using f by simp
  show ?thesis
  proof (cases "resolvedType f")
    case None
    with run inv show ?thesis
      by (auto simp: convertNonRepeatedField_resolved[OF res] split: if_splits)
  next
    case (Some a)
    show ?thesis
    proof (cases a)
      case (Enum e)
      with Some run inv show ?thesis
        by (auto simp: convertNonRepeatedField_resolved[OF res])
    next
      case (Type t)
      with Some run have
        "proceed (convertMessageType n tm r c t) (\<lambda>r2 c2 columns.
           Some (r2, c2, Inr (Column (name f) (struct columns)))) = Some (r', c', res)"
        by (simp add: convertNonRepeatedField_resolved[OF res])
      then show ?thesis
      proof (cases rule: proceed_cases)
        case (threw s c1 e)
        with mt[OF inv threw(1)] show ?thesis by simp
      next
        case (returned s c1 columns)
        with mt[OF inv returned(1)] Some Type show ?thesis by auto
      qed
    qed
  qed
qed

lemma column_follows_singular:
  assumes "\<not> repeated f" and "column_name col = name f"
    and "\<And>u. resolvedType f = Some (Type u) \<Longrightarrow>
           \<exists>sub. column_type col = struct sub \<and> follows r sub (fields_of r u)"
  shows "column_follows r col f"
proof (cases col)
  case (Column x ty)
  show ?thesis
  proof (cases "resolvedType f")
    case None
    with Column assms(2) show ?thesis by simp
  next
    case (Some a)
    with Column assms show ?thesis by (cases a) auto
  qed
qed

lemma column_follows_repeated:
  assumes "repeated f"
    and "\<And>u. resolvedType f = Some (Type u) \<Longrightarrow>
           \<exists>sub. ty = struct sub \<and> follows r sub (fields_of r u)"
  shows "column_follows r (Column (name f) (array ty)) f"
proof (cases "resolvedType f")
  case None
  then show ?thesis by simp
next
  case (Some a)
  with assms show ?thesis by (cases a) auto
qed

lemma convertField_follows_step:
  assumes r: "resolved_root r" and f: "resolved f" and inv: "cache_follows r c"
    and mt: "\<And>c t r' c' res. cache_follows r c \<Longrightarrow>
               convertMessageType n tm r c t = Some (r', c', res) \<Longrightarrow>
               cache_follows r c' \<and> (\<forall>cols. res = Inr cols \<longrightarrow> follows r cols (fields_of r t))"
    and run: "convertField n tm r c f = Some (r', c', res)"
  shows "cache_follows r c' \<and> (\<forall>col. res = Inr col \<longrightarrow> column_follows r col f)"
proof -
  have res: "resolve r f = (r, Inr f)" using f by simp
  have step: "cache_follows r c' \<and>
         (\<forall>col. res = Inr col \<longrightarrow>
            column_name col = name f \<and>
            (\<forall>u. resolvedType f = Some (Type u) \<longrightarrow>
               (\<exists>sub. column_type col = struct sub \<and> follows r sub (fields_of r u))))"
    if "convertNonRepeatedField n tm r c f = Some (r', c', res)" for r' c' res
    using r f inv mt that by (rule convertNonRepeatedField_follows_step)
  show ?thesis
  proof (cases "repeated f")
    case False
    with run have "convertNonRepeatedField n tm r c f = Some (r', c', res)"
      by (simp add: convertField_resolved[OF res])
    from step[OF this] False show ?thesis
      by (auto intro!: column_follows_singular)
  next
    case True
    with run have
      "proceed (convertNonRepeatedField n tm r c f) (\<lambda>r2 c2 col.
         Some (r2, c2, Inr (Column (name f) (array (column_type col))))) = Some (r', c', res)"
      by (simp add: convertField_resolved[OF res])
    then show ?thesis
    proof (cases rule: proceed_cases)
      case (threw s c1 e)
      with step[OF threw(1)] show ?thesis by simp
    next
      case (returned s c1 col)
      with step[OF returned(1)] True show ?thesis
        by (auto intro!: column_follows_repeated)
    qed
  qed
qed

lemma convertFields_follows_step:
  assumes r: "resolved_root r"
    and mt: "\<And>c t r' c' res. cache_follows r c \<Longrightarrow>
               convertMessageType n tm r c t = Some (r', c', res) \<Longrightarrow>
               cache_follows r c' \<and> (\<forall>cols. res = Inr cols \<longrightarrow> follows r cols (fields_of r t))"
  shows "(\<And>f. f \<in> set fs \<Longrightarrow> resolved f) \<Longrightarrow> cache_follows r c \<Longrightarrow>
         convertFields n tm r c fs = Some (r', c', res) \<Longrightarrow>
         cache_follows r c' \<and> (\<forall>cols. res = Inr cols \<longrightarrow> follows r cols fs)"
proof (induction fs arbitrary: c r' c' res)
  case Nil
  then show ?case by auto
next
  case (Cons f fs)
  have f: "resolved f" using Cons.prems(1) by simp
  have fs: "\<And>g. g \<in> set fs \<Longrightarrow> resolved g" using Cons.prems(1) by simp
  have step: "cache_follows r c' \<and> (\<forall>col. res = Inr col \<longrightarrow> column_follows r col f)"
    if "convertField n tm r c f = Some (r', c', res)" for r' c' res
    using r f Cons.prems(2) mt that by (rule convertField_follows_step)
  from Cons.prems(3) have
    "proceed (convertField n tm r c f) (\<lambda>r1 c1 col.
       proceed (convertFields n tm r1 c1 fs) (\<lambda>r2 c2 cols.
       Some (r2, c2, Inr (col # cols)))) = Some (r', c', res)"
    by simp
  then show ?case
  proof (cases rule: proceed_cases)
    case (threw s c1 e)
    with step[OF threw(1)] show ?thesis by simp
  next
    case (returned s c1 col)
    from convertField_frame[OF r f returned(1)] have s: "s = r" .
    from step[OF returned(1)] have inv1: "cache_follows r c1" and col: "column_follows r col f"
      by simp_all
    from returned(2) show ?thesis
    proof (cases rule: proceed_cases)
      case (threw s2 c2 e)
      with Cons.IH[OF fs inv1 threw(1)[unfolded s]] show ?thesis by simp
    next
      case (returned s2 c2 cols)
      with Cons.IH[OF fs inv1 returned(1)[unfolded s]] col show ?thesis by auto
    qed
  qed
qed

lemma convertMessageType_follows:
  assumes r: "resolved_root r"
  shows "cache_follows r c \<Longrightarrow> convertMessageType n tm r c t = Some (r', c', res) \<Longrightarrow>
         cache_follows r c' \<and> (\<forall>cols. res = Inr cols \<longrightarrow> follows r cols (fields_of r t))"
proof (induction n arbitrary: c t r' c' res)
  case 0
  then show ?case
    by (auto simp: convertMessageType.simps cache_follows_def split: option.splits)
next
  case (Suc n)
  show ?case
  proof (cases "c t")
    case (Some cols)
    with Suc.prems show ?thesis
      by (auto simp: convertMessageType_cached cache_follows_def)
  next
    case None
    note fs = fields_of_resolved[OF r]
    have loop: "cache_follows r c2 \<and> (\<forall>cols. res = Inr cols \<longrightarrow> follows r cols (fields_of r t))"
      if "convertFields n tm r c (fields_of r t) = Some (r2, c2, res)" for r2 c2 res
      using r Suc.IH fs Suc.prems(1) that by (rule convertFields_follows_step)
    from Suc.prems(2) None show ?thesis
    proof (cases rule: convertMessageType_Suc_cases)
      case (cycle r1 e)
      with Suc.prems(1) show ?thesis by simp
    next
      case (threw r1 r2 c2 e)
      from detect_frame[OF r threw(1)] have "r1 = r" .
      with loop[OF threw(2)[unfolded \<open>r1 = r\<close>]] threw(3) show ?thesis by simp
    next
      case (returned r1 r2 c2 columns)
      from detect_frame[OF r returned(1)] have "r1 = r" .
      with loop[OF returned(2)[unfolded \<open>r1 = r\<close>]] returned(3) show ?thesis
        by (auto simp: cache_follows_def)
    qed
  qed
qed

lemma cache_follows_empty: "cache_follows r Map.empty"
  by (simp add: cache_follows_def)

lemma follows_list_all2: "follows r cols fs \<longleftrightarrow> list_all2 (column_follows r) cols fs"
proof (induction cols arbitrary: fs)
  case Nil
  then show ?case by (cases fs) simp_all
next
  case (Cons col cols)
  then show ?case by (cases fs) simp_all
qed

lemma column_follows_message:
  assumes "column_follows r col f" and "resolvedType f = Some (Type u)"
  shows "\<exists>sub. column_type col = (if repeated f then array (struct sub) else struct sub) \<and>
               follows r sub (fields_of r u)"
proof (cases col)
  case (Column x ty)
  with assms show ?thesis
    by (auto split: glue_type.splits)
qed

text \<open>
  C6. On a resolved root, with a cache whose entries follow the root's types of their
  names (the empty cache of a new converter does, and every call keeps it so): the
  columns that \<open>convertMessageType\<close> returns for a type are as many as the type's
  fields, carry the fields' names in the declared order, and the column of every field
  typed as a message is the structure (the list of it, when the field is repeated) of
  columns that carry the names of the nested type's fields in their declared order, and
  so on downwards (\<open>follows\<close>).
\<close>

theorem columns_follow_fields:
  assumes "resolved_root r" and "cache_follows r c"
    and "convertMessageType n tm r c t = Some (r', c', Inr columns)"
  shows "length columns = length (fields_of r t)
       \<and> map column_name columns = map name (fields_of r t)
       \<and> (\<forall>i u. i < length columns \<and> resolvedType (fields_of r t ! i) = Some (Type u) \<longrightarrow>
            (\<exists>sub. column_type (columns ! i) =
                      (if repeated (fields_of r t ! i) then array (struct sub) else struct sub) \<and>
                   map column_name sub = map name (fields_of r u)))
       \<and> follows r columns (fields_of r t)
       \<and> cache_follows r c'"
proof -
  from convertMessageType_follows[OF assms]
  have fol: "follows r columns (fields_of r t)" and inv: "cache_follows r c'"
    by simp_all
  from follows_names[OF fol] have names: "map column_name columns = map name (fields_of r t)" .
  then have len: "length columns = length (fields_of r t)"
    by (rule map_eq_imp_length_eq)
  have "\<exists>sub. column_type (columns ! i) =
                (if repeated (fields_of r t ! i) then array (struct sub) else struct sub) \<and>
              map column_name sub = map name (fields_of r u)"
    if "i < length columns" and "resolvedType (fields_of r t ! i) = Some (Type u)" for i u
  proof -
    from fol that(1) have "column_follows r (columns ! i) (fields_of r t ! i)"
      by (simp add: follows_list_all2 list_all2_nthD)
    from column_follows_message[OF this that(2)] show ?thesis
      by (auto dest: follows_names)
  qed
  with len names fol inv show ?thesis by blast
qed

theorem columns_follow_fields_witness:
  "resolved_root user_root \<and> cache_follows user_root Map.empty
   \<and> length user_columns = length (fields_of user_root ''.User'')
   \<and> map column_name user_columns = map name (fields_of user_root ''.User'')
   \<and> follows user_root user_columns (fields_of user_root ''.User'')"
  using columns_follow_fields[OF user_root_resolved cache_follows_empty user_root_User[of 0]]
    user_root_resolved cache_follows_empty
  by blast

text \<open>A converter that holds the columns of \<^verbatim>\<open>Address\<close> of one source returns them for
  the \<^verbatim>\<open>Address\<close> of another source, which has one field and not two.\<close>

theorem cached_columns_of_another_source:
  "convertMessageType 2 DEFAULT_TYPE_MAPPING other_root [''.Address'' \<mapsto> address_columns]
     ''.Address'' =
     Some (other_root, [''.Address'' \<mapsto> address_columns], Inr address_columns)
   \<and> length address_columns \<noteq> length (fields_of other_root ''.Address'')
   \<and> map column_name address_columns \<noteq> map name (fields_of other_root ''.Address'')"
  by (simp add: convertMessageType_cached address_columns_def fields_of_def other_root_def)

text \<open>The repository's test of a repeated enum field: the column is the list of the
  mapping's entry for \<open>enum\<close>, not the entry.\<close>

theorem repeated_enum_field_is_list:
  "convertField 0 DEFAULT_TYPE_MAPPING user_root Map.empty
     (fld ''.User'' ''status_history'' ''Status'' True (Some (Enum ''.Status''))) =
     Some (user_root, Map.empty, Inr (Column ''status_history'' (array STRING)))
   \<and> DEFAULT_TYPE_MAPPING ''enum'' = Some STRING
   \<and> array STRING \<noteq> STRING"
  by (simp add: fld_def convertField.simps resolveRepeatedField.simps
        convertNonRepeatedField.simps DEFAULT_TYPE_MAPPING_entries)

end
